theory Spec2Isabelle
  imports Complex_Main
begin

section \<open>JavaScript values\<close>

text \<open>
  The helpers of pdsl are JavaScript functions over arbitrary runtime values. A number is
  an IEEE double: NaN, the two infinities, or a finite value. Every finite double is a
  rational, and the source only compares numbers (\<open><\<close>, \<open>>\<close>, \<open>===\<close>), which is exact on
  doubles; the two zeros compare equal everywhere the source looks, so both are \<open>Fin 0\<close>.
\<close>

datatype jsnum = NaN | NegInf | Fin rat | PosInf

text \<open>
  Arrays and plain objects carry the address of the heap cell they live in: \<open>===\<close> compares
  objects by reference. An array is the list of the values its indices read, an object the
  association list of its own enumerable string-keyed properties in enumeration order.
  Symbols and functions are opaque references; what a function computes when it is
  applied is given by the caller's environment (\<open>fenv\<close> below).
\<close>

datatype jsval =
    JUndefined
  | JNull
  | JBool bool
  | JNum jsnum
  | JBigInt int
  | JStr string
  | JSym nat
  | JFun nat
  | JArr nat "jsval list"
  | JObj nat "(string \<times> jsval) list"

datatype error = TypeError | Thrown jsval

text \<open>
  A call either throws or returns a value. \<open>TypeError\<close> is what the runtime itself
  throws; \<open>Thrown v\<close> is a \<open>throw v\<close> inside a function of the caller.
\<close>

type_synonym res = "error + jsval"

text \<open>A one-argument JavaScript function, as the helpers build and apply them.\<close>

type_synonym pred = "jsval \<Rightarrow> res"

text \<open>The caller's functions: the behaviour of the function value \<open>JFun f\<close> is \<open>env f\<close>.\<close>

type_synonym fenv = "nat \<Rightarrow> pred"

subsection \<open>Operators of the language that the helpers use\<close>

text \<open>\<open>typeof a\<close>.\<close>

fun typeof :: "jsval \<Rightarrow> string" where
  "typeof JUndefined = ''undefined''"
| "typeof JNull = ''object''"
| "typeof (JBool _) = ''boolean''"
| "typeof (JNum _) = ''number''"
| "typeof (JBigInt _) = ''bigint''"
| "typeof (JStr _) = ''string''"
| "typeof (JSym _) = ''symbol''"
| "typeof (JFun _) = ''function''"
| "typeof (JArr _ _) = ''object''"
| "typeof (JObj _ _) = ''object''"

text \<open>\<open>Array.isArray(a)\<close>.\<close>

fun isArray :: "jsval \<Rightarrow> bool" where
  "isArray (JArr _ _) = True"
| "isArray _ = False"

text \<open>\<open>Boolean(a)\<close>, the truthiness that \<open>!\<close>, \<open>&&\<close> and \<open>||\<close> test.\<close>

fun truthy :: "jsval \<Rightarrow> bool" where
  "truthy JUndefined = False"
| "truthy JNull = False"
| "truthy (JBool b) = b"
| "truthy (JNum NaN) = False"
| "truthy (JNum (Fin q)) = (q \<noteq> 0)"
| "truthy (JNum _) = True"
| "truthy (JBigInt i) = (i \<noteq> 0)"
| "truthy (JStr s) = (s \<noteq> [])"
| "truthy _ = True"

text \<open>\<open>x < y\<close> on numbers: false as soon as one side is NaN.\<close>

fun num_lt :: "jsnum \<Rightarrow> jsnum \<Rightarrow> bool" where
  "num_lt NaN _ = False"
| "num_lt _ NaN = False"
| "num_lt NegInf NegInf = False"
| "num_lt NegInf _ = True"
| "num_lt (Fin _) NegInf = False"
| "num_lt (Fin p) (Fin q) = (p < q)"
| "num_lt (Fin _) PosInf = True"
| "num_lt PosInf _ = False"

text \<open>\<open>x === y\<close> on numbers: NaN equals nothing, itself included.\<close>

fun num_eq :: "jsnum \<Rightarrow> jsnum \<Rightarrow> bool" where
  "num_eq NaN _ = False"
| "num_eq _ NaN = False"
| "num_eq x y = (x = y)"

text \<open>\<open>x <= y\<close> on numbers (the source writes it as \<open>>=\<close> and \<open><=\<close>).\<close>

definition num_le :: "jsnum \<Rightarrow> jsnum \<Rightarrow> bool" where
  "num_le x y = (num_lt x y \<or> num_eq x y)"

text \<open>
  \<open>a === b\<close>: values of different types are never equal; primitives compare by value,
  symbols, functions, arrays and objects by reference.
\<close>

definition strict_eq :: "jsval \<Rightarrow> jsval \<Rightarrow> bool" where
  "strict_eq a b =
     (case a of
        JUndefined \<Rightarrow> (case b of JUndefined \<Rightarrow> True | _ \<Rightarrow> False)
      | JNull \<Rightarrow> (case b of JNull \<Rightarrow> True | _ \<Rightarrow> False)
      | JBool x \<Rightarrow> (case b of JBool y \<Rightarrow> x = y | _ \<Rightarrow> False)
      | JNum x \<Rightarrow> (case b of JNum y \<Rightarrow> num_eq x y | _ \<Rightarrow> False)
      | JBigInt x \<Rightarrow> (case b of JBigInt y \<Rightarrow> x = y | _ \<Rightarrow> False)
      | JStr x \<Rightarrow> (case b of JStr y \<Rightarrow> x = y | _ \<Rightarrow> False)
      | JSym x \<Rightarrow> (case b of JSym y \<Rightarrow> x = y | _ \<Rightarrow> False)
      | JFun x \<Rightarrow> (case b of JFun y \<Rightarrow> x = y | _ \<Rightarrow> False)
      | JArr p _ \<Rightarrow> (case b of JArr q _ \<Rightarrow> p = q | _ \<Rightarrow> False)
      | JObj p _ \<Rightarrow> (case b of JObj q _ \<Rightarrow> p = q | _ \<Rightarrow> False))"

text \<open>
  The numeric value a relational operator gives the subject when the other side is a
  number. A symbol cannot be converted and throws; a BigInt is compared by its
  mathematical value. A string, an array, an object or a function goes through the host's
  string parsing and \<open>valueOf\<close>/\<open>toString\<close>, which is the parameter \<open>conv\<close>.
\<close>

type_synonym numconv = "jsval \<Rightarrow> error + jsnum"

fun to_numeric :: "numconv \<Rightarrow> jsval \<Rightarrow> error + jsnum" where
  "to_numeric conv JUndefined = Inr NaN"
| "to_numeric conv JNull = Inr (Fin 0)"
| "to_numeric conv (JBool b) = Inr (Fin (if b then 1 else 0))"
| "to_numeric conv (JNum x) = Inr x"
| "to_numeric conv (JBigInt i) = Inr (Fin (of_int i))"
| "to_numeric conv (JSym _) = Inl TypeError"
| "to_numeric conv v = conv v"

text \<open>\<open>n > m\<close> and \<open>n < m\<close> for a subject \<open>n\<close> and a number \<open>m\<close>.\<close>

definition js_gt :: "numconv \<Rightarrow> jsval \<Rightarrow> jsnum \<Rightarrow> error + bool" where
  "js_gt conv n m = (case to_numeric conv n of Inl e \<Rightarrow> Inl e | Inr x \<Rightarrow> Inr (num_lt m x))"

definition js_lt :: "numconv \<Rightarrow> jsval \<Rightarrow> jsnum \<Rightarrow> error + bool" where
  "js_lt conv n m = (case to_numeric conv n of Inl e \<Rightarrow> Inl e | Inr x \<Rightarrow> Inr (num_lt x m))"

definition js_ge :: "numconv \<Rightarrow> jsval \<Rightarrow> jsnum \<Rightarrow> error + bool" where
  "js_ge conv n m = (case to_numeric conv n of Inl e \<Rightarrow> Inl e | Inr x \<Rightarrow> Inr (num_le m x))"

definition js_le :: "numconv \<Rightarrow> jsval \<Rightarrow> jsnum \<Rightarrow> error + bool" where
  "js_le conv n m = (case to_numeric conv n of Inl e \<Rightarrow> Inl e | Inr x \<Rightarrow> Inr (num_le x m))"

section \<open>helpers.js: comparisons\<close>

text \<open>
  \<^verbatim>\<open>const btw = (a, b) => function btwFn(n) {
    const [min, max] = a < b ? [a, b] : [b, a];
    return n > min && n < max; };\<close>
  The bounds are numbers; \<open>&&\<close> does not evaluate its right side when the left is false.
\<close>

definition btw :: "numconv \<Rightarrow> jsnum \<Rightarrow> jsnum \<Rightarrow> pred" where
  "btw conv a b n =
     (let (mn, mx) = (if num_lt a b then (a, b) else (b, a))
      in case js_gt conv n mn of
           Inl e \<Rightarrow> Inl e
         | Inr g \<Rightarrow> if g then (case js_lt conv n mx of Inl e \<Rightarrow> Inl e | Inr l \<Rightarrow> Inr (JBool l))
                    else Inr (JBool False))"

text \<open>\<open>btwe\<close>: the same with \<open>>=\<close> and \<open><=\<close>.\<close>

definition btwe :: "numconv \<Rightarrow> jsnum \<Rightarrow> jsnum \<Rightarrow> pred" where
  "btwe conv a b n =
     (let (mn, mx) = (if num_lt a b then (a, b) else (b, a))
      in case js_ge conv n mn of
           Inl e \<Rightarrow> Inl e
         | Inr g \<Rightarrow> if g then (case js_le conv n mx of Inl e \<Rightarrow> Inl e | Inr l \<Rightarrow> Inr (JBool l))
                    else Inr (JBool False))"

text \<open>\<open>lt\<close>, \<open>lte\<close>, \<open>gt\<close>, \<open>gte\<close>: one comparison against the captured bound.\<close>

definition lt :: "numconv \<Rightarrow> jsnum \<Rightarrow> pred" where
  "lt conv a n = (case js_lt conv n a of Inl e \<Rightarrow> Inl e | Inr r \<Rightarrow> Inr (JBool r))"

definition lte :: "numconv \<Rightarrow> jsnum \<Rightarrow> pred" where
  "lte conv a n = (case js_le conv n a of Inl e \<Rightarrow> Inl e | Inr r \<Rightarrow> Inr (JBool r))"

definition gt :: "numconv \<Rightarrow> jsnum \<Rightarrow> pred" where
  "gt conv a n = (case js_gt conv n a of Inl e \<Rightarrow> Inl e | Inr r \<Rightarrow> Inr (JBool r))"

definition gte :: "numconv \<Rightarrow> jsnum \<Rightarrow> pred" where
  "gte conv a n = (case js_ge conv n a of Inl e \<Rightarrow> Inl e | Inr r \<Rightarrow> Inr (JBool r))"

section \<open>helpers.js: values as predicates\<close>

text \<open>Calling a value: a function runs, anything else is not callable.\<close>

definition apply_fn :: "fenv \<Rightarrow> jsval \<Rightarrow> pred" where
  "apply_fn env f a = (case f of JFun k \<Rightarrow> env k a | _ \<Rightarrow> Inl TypeError)"

text \<open>
  \<^verbatim>\<open>const val = value => typeof value === "function" ? value
       : function isVal(a) { return a === value; };\<close>
\<close>

definition isVal :: "jsval \<Rightarrow> pred" where
  "isVal v a = Inr (JBool (strict_eq a v))"

definition val :: "fenv \<Rightarrow> jsval \<Rightarrow> pred" where
  "val env v = (if typeof v = ''function'' then apply_fn env v else isVal v)"

section \<open>helpers.js: logical combinators\<close>

text \<open>
  \<open>or\<close>, \<open>and\<close> and \<open>not\<close> return the functions the source names \<open>orFn\<close>, \<open>andFn\<close> and
  \<open>notFn\<close>. \<open>||\<close> and \<open>&&\<close> return one of their operands, not a boolean, and evaluate the
  right operand only when the left one does not decide.
\<close>

definition orFn :: "fenv \<Rightarrow> jsval \<Rightarrow> jsval \<Rightarrow> pred" where
  "orFn env left right a =
     (case val env left a of
        Inl e \<Rightarrow> Inl e
      | Inr l \<Rightarrow> if truthy l then Inr l else val env right a)"

definition andFn :: "fenv \<Rightarrow> jsval \<Rightarrow> jsval \<Rightarrow> pred" where
  "andFn env left right a =
     (case val env left a of
        Inl e \<Rightarrow> Inl e
      | Inr l \<Rightarrow> if truthy l then val env right a else Inr l)"

definition notFn :: "fenv \<Rightarrow> jsval \<Rightarrow> pred" where
  "notFn env input a =
     (case val env input a of Inl e \<Rightarrow> Inl e | Inr r \<Rightarrow> Inr (JBool (\<not> truthy r)))"

section \<open>helpers.js: entry and obj\<close>

text \<open>
  \<^verbatim>\<open>function entry(name, predicate) { return [name, val(predicate)]; }\<close>
  An argument of \<open>obj\<close> is such a two-element array, whose second element is a function,
  or any other value. \<open>Entry k p\<close> is the array \<open>[k, p]\<close> that \<open>entry\<close> builds, \<open>Key v\<close> a
  value \<open>v\<close> passed as it is.
\<close>

datatype objarg = Entry jsval pred | Key jsval

definition entry :: "fenv \<Rightarrow> jsval \<Rightarrow> jsval \<Rightarrow> objarg" where
  "entry env name predicate = Entry name (val env predicate)"

text \<open>\<open>xs[i]\<close> reads \<open>undefined\<close> past the end of an array.\<close>

definition elem :: "jsval list \<Rightarrow> nat \<Rightarrow> jsval" where
  "elem xs i = (if i < length xs then xs ! i else JUndefined)"

text \<open>The function \<open>Boolean\<close>.\<close>

definition BooleanFn :: pred where
  "BooleanFn a = Inr (JBool (truthy a))"

text \<open>
  \<^verbatim>\<open>const [key, predicate] = Array.isArray(entry) ? entry : [entry, Boolean];\<close>
  A value that is itself an array is taken apart like an entry; what it holds at index 1
  is then called as it is.
\<close>

fun destructure :: "fenv \<Rightarrow> objarg \<Rightarrow> jsval \<times> pred" where
  "destructure env (Entry k p) = (k, p)"
| "destructure env (Key v) =
     (case v of
        JArr _ xs \<Rightarrow> (elem xs 0, apply_fn env (elem xs 1))
      | _ \<Rightarrow> (v, BooleanFn))"

text \<open>
  \<open>a[key]\<close> is the host's property read (own properties, the prototype chain, the
  conversion of the key); it can throw. It is the parameter \<open>get\<close>.
\<close>

type_synonym propget = "jsval \<Rightarrow> jsval \<Rightarrow> res"

text \<open>
  The reducer of \<open>objFn\<close>:
  \<^verbatim>\<open>return acc && Boolean(a) && predicate(a[key]);\<close>
\<close>

definition obj_step :: "propget \<Rightarrow> fenv \<Rightarrow> jsval \<Rightarrow> jsval \<Rightarrow> objarg \<Rightarrow> res" where
  "obj_step get env a acc e =
     (let (key, predicate) = destructure env e
      in if \<not> truthy acc then Inr acc
         else if \<not> truthy (JBool (truthy a)) then Inr (JBool (truthy a))
         else (case get a key of Inl err \<Rightarrow> Inl err | Inr v \<Rightarrow> predicate v))"

text \<open>\<open>entries.reduce(reducer, true)\<close>; a throw in the reducer ends the reduction.\<close>

fun obj_reduce :: "propget \<Rightarrow> fenv \<Rightarrow> jsval \<Rightarrow> jsval \<Rightarrow> objarg list \<Rightarrow> res" where
  "obj_reduce get env a acc [] = Inr acc"
| "obj_reduce get env a acc (e # es) =
     (case obj_step get env a acc e of
        Inl err \<Rightarrow> Inl err
      | Inr acc' \<Rightarrow> obj_reduce get env a acc' es)"

definition obj :: "propget \<Rightarrow> fenv \<Rightarrow> objarg list \<Rightarrow> pred" where
  "obj get env entries a = obj_reduce get env a (JBool True) entries"

section \<open>helpers.js: holds\<close>

text \<open>
  \<open>holdsFn\<close> takes an array, \<open>n\<close>; the model takes the list of its elements. The two arrays
  \<open>fns\<close> and \<open>success\<close> are built together from \<open>args\<close> and have its length.

  The inner loop, over \<open>j\<close>:
  \<^verbatim>\<open>for (j = 0; j < fns.length; j++) {
    if (!success[j]) { const fn = fns[j]; success[j] = success[j] || fn(item); } }\<close>
\<close>

function inner_loop :: "pred list \<Rightarrow> jsval \<Rightarrow> nat \<Rightarrow> jsval list \<Rightarrow> error + jsval list" where
  "inner_loop fns item j success =
     (if j < length fns
      then (if \<not> truthy (elem success j)
            then (case (if truthy (elem success j) then Inr (elem success j) else (fns ! j) item) of
                    Inl e \<Rightarrow> Inl e
                  | Inr r \<Rightarrow> inner_loop fns item (j + 1) (success[j := r]))
            else inner_loop fns item (j + 1) success)
      else Inr success)"
  by pat_completeness auto
termination
  by (relation "measure (\<lambda>(fns, item, j, success). length fns - j)") auto

declare inner_loop.simps [simp del]

text \<open>The outer loop, over the items of \<open>n\<close>: \<open>for (i = 0; i < n.length; i++)\<close>.\<close>

fun outer_loop :: "pred list \<Rightarrow> jsval list \<Rightarrow> jsval list \<Rightarrow> error + jsval list" where
  "outer_loop fns [] success = Inr success"
| "outer_loop fns (item # items) success =
     (case inner_loop fns item 0 success of
        Inl e \<Rightarrow> Inl e
      | Inr success' \<Rightarrow> outer_loop fns items success')"

text \<open>
  \<open>success.reduce((a, b) => a && b)\<close>: without an initial value, \<open>reduce\<close> starts from the
  first element, and throws a TypeError on an empty array.
\<close>

definition js_and :: "jsval \<Rightarrow> jsval \<Rightarrow> jsval" where
  "js_and a b = (if truthy a then b else a)"

fun reduce_and :: "jsval list \<Rightarrow> res" where
  "reduce_and [] = Inl TypeError"
| "reduce_and (x # xs) = Inr (foldl js_and x xs)"

definition holds :: "fenv \<Rightarrow> jsval list \<Rightarrow> jsval list \<Rightarrow> res" where
  "holds env args n =
     (let fns = map (val env) args;
          success = map (\<lambda>arg. JBool False) args
      in case outer_loop fns n success of
           Inl e \<Rightarrow> Inl e
         | Inr success' \<Rightarrow> reduce_and success')"

section \<open>helpers.js: deep\<close>

text \<open>
  \<open>JSON.stringify\<close>, on the values above with the built-in prototypes as they are. A
  string is quoted with the escapes of the standard; the code units of the model are
  the 256 values of \<open>char\<close>.
\<close>

definition hexdigit :: "nat \<Rightarrow> char" where
  "hexdigit d = (if d < 10 then char_of (48 + d) else char_of (87 + d))"

definition json_escape :: "char \<Rightarrow> string" where
  "json_escape c =
     (if c = CHR 0x08 then [CHR 0x5C, CHR ''b'']
      else if c = CHR 0x09 then [CHR 0x5C, CHR ''t'']
      else if c = CHR 0x0A then [CHR 0x5C, CHR ''n'']
      else if c = CHR 0x0C then [CHR 0x5C, CHR ''f'']
      else if c = CHR 0x0D then [CHR 0x5C, CHR ''r'']
      else if c = CHR 0x22 then [CHR 0x5C, CHR 0x22]
      else if c = CHR 0x5C then [CHR 0x5C, CHR 0x5C]
      else if (of_char c :: nat) < 32
        then [CHR 0x5C, CHR ''u'', CHR ''0'', CHR ''0'',
              hexdigit (of_char c div 16), hexdigit (of_char c mod 16)]
      else [c])"

definition json_quote :: "string \<Rightarrow> string" where
  "json_quote s = CHR 0x22 # concat (map json_escape s) @ [CHR 0x22]"

text \<open>Items joined by commas, as inside \<open>[...]\<close> and \<open>{...}\<close>.\<close>

fun join_comma :: "string list \<Rightarrow> string" where
  "join_comma [] = []"
| "join_comma [x] = x"
| "join_comma (x # y # ys) = x @ '','' @ join_comma (y # ys)"

text \<open>The decimal digits of an array index, the key under which an element is serialized.\<close>

function decimal :: "nat \<Rightarrow> string" where
  "decimal n = (if n < 10 then [char_of (48 + n)] else decimal (n div 10) @ [char_of (48 + n mod 10)])"
  by pat_completeness auto
termination
  by (relation "measure id") auto

declare decimal.simps [simp del]

text \<open>
  Two things the serializer does are the host's. The digits of a finite number are
  \<open>fmt\<close>. An object with an own property \<open>toJSON\<close> that is a function is serialized as
  whatever that function returns for it and for the key it sits under: the text for it
  is \<open>hook f object key\<close>.
\<close>

type_synonym numfmt = "rat \<Rightarrow> string"

type_synonym jsonhook = "nat \<Rightarrow> jsval \<Rightarrow> string \<Rightarrow> error + string option"

text \<open>
  The result is a string or \<open>undefined\<close> (\<open>None\<close>): a function, a symbol and \<open>undefined\<close> have
  no JSON text; inside an array they are written \<open>null\<close>, inside an object their
  property is left out. A BigInt throws.
\<close>

fun json :: "numfmt \<Rightarrow> jsonhook \<Rightarrow> string \<Rightarrow> jsval \<Rightarrow> error + string option"
  and json_elems :: "numfmt \<Rightarrow> jsonhook \<Rightarrow> nat \<Rightarrow> jsval list \<Rightarrow> error + string list"
  and json_props :: "numfmt \<Rightarrow> jsonhook \<Rightarrow> (string \<times> jsval) list \<Rightarrow> error + string list"
where
  "json fmt hook key JUndefined = Inr None"
| "json fmt hook key JNull = Inr (Some ''null'')"
| "json fmt hook key (JBool b) = Inr (Some (if b then ''true'' else ''false''))"
| "json fmt hook key (JNum x) = Inr (Some (case x of Fin q \<Rightarrow> fmt q | _ \<Rightarrow> ''null''))"
| "json fmt hook key (JBigInt i) = Inl TypeError"
| "json fmt hook key (JStr s) = Inr (Some (json_quote s))"
| "json fmt hook key (JSym _) = Inr None"
| "json fmt hook key (JFun _) = Inr None"
| "json fmt hook key (JArr p xs) =
     (case json_elems fmt hook 0 xs of
        Inl e \<Rightarrow> Inl e
      | Inr items \<Rightarrow> Inr (Some (''['' @ join_comma items @ '']'')))"
| "json fmt hook key (JObj p ps) =
     (case map_of ps ''toJSON'' of
        Some (JFun f) \<Rightarrow> hook f (JObj p ps) key
      | _ \<Rightarrow>
        (case json_props fmt hook ps of
           Inl e \<Rightarrow> Inl e
         | Inr items \<Rightarrow> Inr (Some (''{'' @ join_comma items @ ''}''))))"
| "json_elems fmt hook i [] = Inr []"
| "json_elems fmt hook i (x # xs) =
     (case json fmt hook (decimal i) x of
        Inl e \<Rightarrow> Inl e
      | Inr t \<Rightarrow>
        (case json_elems fmt hook (i + 1) xs of
           Inl e \<Rightarrow> Inl e
         | Inr items \<Rightarrow> Inr ((case t of None \<Rightarrow> ''null'' | Some u \<Rightarrow> u) # items)))"
| "json_props fmt hook [] = Inr []"
| "json_props fmt hook ((k, v) # ps) =
     (case json fmt hook k v of
        Inl e \<Rightarrow> Inl e
      | Inr t \<Rightarrow>
        (case json_props fmt hook ps of
           Inl e \<Rightarrow> Inl e
         | Inr items \<Rightarrow>
             Inr (case t of None \<Rightarrow> items | Some u \<Rightarrow> (json_quote k @ '':'' @ u) # items)))"

definition JSON_stringify :: "numfmt \<Rightarrow> jsonhook \<Rightarrow> jsval \<Rightarrow> error + string option" where
  "JSON_stringify fmt hook v = json fmt hook [] v"

text \<open>
  \<^verbatim>\<open>const deep = value => { const st = JSON.stringify(value);
    return a => st === JSON.stringify(a); };\<close>
  The captured value is serialized once, when the predicate is built, and that can
  already throw. \<open>===\<close> compares two results that are strings or \<open>undefined\<close>.
\<close>

definition deep :: "numfmt \<Rightarrow> jsonhook \<Rightarrow> jsval \<Rightarrow> error + pred" where
  "deep fmt hook v =
     (case JSON_stringify fmt hook v of
        Inl e \<Rightarrow> Inl e
      | Inr st \<Rightarrow>
          Inr (\<lambda>a. case JSON_stringify fmt hook a of
                      Inl e \<Rightarrow> Inl e
                    | Inr sa \<Rightarrow> Inr (JBool (st = sa))))"

section \<open>helpers.js: prim\<close>

text \<open>
  The type descriptors are the constructors the source lists for \<open>prim\<close>; \<open>name\<close> is the
  \<open>name\<close> property of each.
\<close>

datatype primative = Array | Boolean | Number | Symbol | BigInt | String | Function | Object

fun name :: "primative \<Rightarrow> string" where
  "name Array = ''Array''"
| "name Boolean = ''Boolean''"
| "name Number = ''Number''"
| "name Symbol = ''Symbol''"
| "name BigInt = ''BigInt''"
| "name String = ''String''"
| "name Function = ''Function''"
| "name Object = ''Object''"

text \<open>\<open>toLowerCase\<close> on the letters A to Z; the other code units of a name stay.\<close>

definition lower_char :: "char \<Rightarrow> char" where
  "lower_char c =
     (if 65 \<le> (of_char c :: nat) \<and> (of_char c :: nat) \<le> 90 then char_of (of_char c + 32 :: nat) else c)"

definition toLowerCase :: "string \<Rightarrow> string" where
  "toLowerCase s = map lower_char s"

text \<open>
  \<^verbatim>\<open>const prim = primative => {
    if (primative.name === "Array") return a => Array.isArray(a);
    return a => typeof a === primative.name.toLowerCase(); };\<close>
\<close>

definition prim :: "primative \<Rightarrow> pred" where
  "prim primative =
     (if name primative = ''Array'' then (\<lambda>a. Inr (JBool (isArray a)))
      else (\<lambda>a. Inr (JBool (typeof a = toLowerCase (name primative)))))"

section \<open>The grammar table\<close>

text \<open>
  The keys of \<open>tokens\<close>, and the node each grammar rule builds for its token. Of a node
  the model keeps the fields that the rules set to constants: its \<open>type\<close>, for an
  operator its \<open>arity\<close>, \<open>runtime\<close> and \<open>prec\<close>, and the \<open>matchingToken\<close> of a closing brace.
\<close>

datatype tokens =
    NOT | AND | OR | BTW | GT | GTE | LT | LTE | ENTRY | OBJ | OBJ_CLOSE | ARG
  | SYMBOL | NUMBER | STRING_DOUBLE | STRING_SINGLE | PREDICATE_LOOKUP
  | PRECEDENCE | PRECEDENCE_CLOSE

datatype helper = Hnot | Hand | Hor | Hbtw | Hgt | Hgte | Hlt | Hlte | Hentry | Hobj

record node =
  type :: string
  arity :: "nat option"
  runtime :: "helper option"
  prec :: "nat option"
  matchingToken :: "string option"

definition literal :: "string \<Rightarrow> node" where
  "literal t = \<lparr>type = t, arity = None, runtime = None, prec = None, matchingToken = None\<rparr>"

definition operator :: "string \<Rightarrow> nat \<Rightarrow> helper \<Rightarrow> nat \<Rightarrow> node" where
  "operator t n h p =
     \<lparr>type = t, arity = Some n, runtime = Some h, prec = Some p, matchingToken = None\<rparr>"

fun grammar :: "tokens \<Rightarrow> node" where
  "grammar SYMBOL = literal ''SymbolLiteral''"
| "grammar NUMBER = literal ''NumericLiteral''"
| "grammar STRING_DOUBLE = literal ''StringLiteral''"
| "grammar STRING_SINGLE = literal ''StringLiteral''"
| "grammar PREDICATE_LOOKUP = literal ''PredicateLookup''"
| "grammar NOT = operator ''Operator'' 1 Hnot 10"
| "grammar AND = operator ''Operator'' 2 Hand 20"
| "grammar OR = operator ''Operator'' 2 Hor 30"
| "grammar BTW = operator ''Operator'' 2 Hbtw 50"
| "grammar GTE = operator ''Operator'' 1 Hgte 50"
| "grammar LTE = operator ''Operator'' 1 Hlte 50"
| "grammar GT = operator ''Operator'' 1 Hgt 50"
| "grammar LT = operator ''Operator'' 1 Hlt 50"
| "grammar ENTRY = operator ''Operator'' 2 Hentry 100"
| "grammar OBJ = operator ''VariableArityOperator'' 0 Hobj 100"
| "grammar OBJ_CLOSE = (literal ''VariableArityOperatorClose'')\<lparr>matchingToken := Some ''{''\<rparr>"
| "grammar ARG = literal ''ArgumentSeparator''"
| "grammar PRECEDENCE = literal ''PrecidenceOperator''"
| "grammar PRECEDENCE_CLOSE = literal ''PrecidenceOperatorClose''"

text \<open>\<open>isOperator(node)\<close>, for a node that is there.\<close>

definition isOperator :: "node \<Rightarrow> bool" where
  "isOperator n = (type n = ''Operator'')"

text \<open>A predicate accepts a subject when it returns, and returns a truthy value.\<close>

definition truthy_result :: "res \<Rightarrow> bool" where
  "truthy_result r = (case r of Inl e \<Rightarrow> False | Inr v \<Rightarrow> truthy v)"

definition accepts :: "pred \<Rightarrow> jsval \<Rightarrow> bool" where
  "accepts p a = truthy_result (p a)"

text \<open>A call returns a boolean: it does not throw, and what it returns is \<open>true\<close> or \<open>false\<close>.\<close>

definition returns_boolean :: "res \<Rightarrow> bool" where
  "returns_boolean r = (case r of Inr (JBool b) \<Rightarrow> True | _ \<Rightarrow> False)"

section \<open>Notions the properties are stated with\<close>

text \<open>
  The values that \<open>val\<close> is meant for: primitives other than text. (Text, arrays and
  objects go to \<open>deep\<close>, functions are used as they are.)
\<close>

definition scalar :: "jsval \<Rightarrow> bool" where
  "scalar v =
     (case v of
        JUndefined \<Rightarrow> True | JNull \<Rightarrow> True | JBool _ \<Rightarrow> True | JNum _ \<Rightarrow> True
      | JBigInt _ \<Rightarrow> True | JSym _ \<Rightarrow> True | _ \<Rightarrow> False)"

text \<open>\<open>deep(v)(a)\<close>: building the predicate and applying it.\<close>

definition deep_on :: "numfmt \<Rightarrow> jsonhook \<Rightarrow> jsval \<Rightarrow> pred" where
  "deep_on fmt hook v a = (case deep fmt hook v of Inl e \<Rightarrow> Inl e | Inr p \<Rightarrow> p a)"

text \<open>The rule of token \<open>s\<close> sets a \<open>prec\<close> strictly above that of the rule of token \<open>t\<close>.\<close>

definition outranks :: "tokens \<Rightarrow> tokens \<Rightarrow> bool" where
  "outranks s t =
     (case (prec (grammar s), prec (grammar t)) of (Some p, Some q) \<Rightarrow> q < p | _ \<Rightarrow> False)"

text \<open>
  What an argument of \<open>obj\<close> asks of the subject \<open>a\<close>: the property under its key can be
  read, and its predicate accepts the value read.
\<close>

definition entry_accepts :: "propget \<Rightarrow> fenv \<Rightarrow> jsval \<Rightarrow> objarg \<Rightarrow> bool" where
  "entry_accepts get env a e =
     (case destructure env e of
        (key, predicate) \<Rightarrow> (case get a key of Inl err \<Rightarrow> False | Inr v \<Rightarrow> accepts predicate v))"

subsection \<open>The JSON structure of a value\<close>

text \<open>
  What two values must share for \<open>deep\<close> to take one for the other. The structure of a
  value is a tree: \<open>null\<close>, a boolean, the digits of a finite number, a text, a list of
  structures, or a list of named structures in the order of the object's properties.
  References are not part of it.
\<close>

datatype jtree =
    TNull | TBool bool | TNum string | TStr string
  | TArr "jtree list" | TObj "(string \<times> jtree) list"

text \<open>
  \<open>undefined\<close>, a function and a symbol have no structure (\<open>None\<close>). Inside a list they
  stand as \<open>null\<close>, and so does a number that is not finite; a property that holds one of
  them is not part of the object's structure. A BigInt has none either, and asking for
  it throws.
\<close>

fun structure_of :: "numfmt \<Rightarrow> jsval \<Rightarrow> error + jtree option"
  and structure_elems :: "numfmt \<Rightarrow> jsval list \<Rightarrow> error + jtree list"
  and structure_props :: "numfmt \<Rightarrow> (string \<times> jsval) list \<Rightarrow> error + (string \<times> jtree) list"
where
  "structure_of fmt JUndefined = Inr None"
| "structure_of fmt JNull = Inr (Some TNull)"
| "structure_of fmt (JBool b) = Inr (Some (TBool b))"
| "structure_of fmt (JNum x) = Inr (Some (case x of Fin q \<Rightarrow> TNum (fmt q) | _ \<Rightarrow> TNull))"
| "structure_of fmt (JBigInt i) = Inl TypeError"
| "structure_of fmt (JStr s) = Inr (Some (TStr s))"
| "structure_of fmt (JSym _) = Inr None"
| "structure_of fmt (JFun _) = Inr None"
| "structure_of fmt (JArr p xs) =
     (case structure_elems fmt xs of Inl e \<Rightarrow> Inl e | Inr ts \<Rightarrow> Inr (Some (TArr ts)))"
| "structure_of fmt (JObj p ps) =
     (case structure_props fmt ps of Inl e \<Rightarrow> Inl e | Inr ts \<Rightarrow> Inr (Some (TObj ts)))"
| "structure_elems fmt [] = Inr []"
| "structure_elems fmt (x # xs) =
     (case structure_of fmt x of
        Inl e \<Rightarrow> Inl e
      | Inr t \<Rightarrow>
        (case structure_elems fmt xs of
           Inl e \<Rightarrow> Inl e
         | Inr ts \<Rightarrow> Inr ((case t of None \<Rightarrow> TNull | Some u \<Rightarrow> u) # ts)))"
| "structure_props fmt [] = Inr []"
| "structure_props fmt ((k, v) # ps) =
     (case structure_of fmt v of
        Inl e \<Rightarrow> Inl e
      | Inr t \<Rightarrow>
        (case structure_props fmt ps of
           Inl e \<Rightarrow> Inl e
         | Inr ts \<Rightarrow> Inr (case t of None \<Rightarrow> ts | Some u \<Rightarrow> (k, u) # ts)))"

text \<open>No object inside the value has an own property \<open>toJSON\<close> that is a function.\<close>

fun hookless :: "jsval \<Rightarrow> bool" where
  "hookless (JArr p xs) = (\<forall>x\<in>set xs. hookless x)"
| "hookless (JObj p ps) =
     ((case map_of ps ''toJSON'' of Some (JFun f) \<Rightarrow> False | _ \<Rightarrow> True) \<and>
      (\<forall>x\<in>set ps. hookless (snd x)))"
| "hookless _ = True"

text \<open>
  The digits of a number, as the host prints a finite number: not empty, and made of
  digits, signs, the point and the exponent mark.
\<close>

definition number_char :: "char \<Rightarrow> bool" where
  "number_char c = (c \<in> set ''0123456789+-.e'')"

definition numeric_text :: "string \<Rightarrow> bool" where
  "numeric_text s = (s \<noteq> [] \<and> list_all number_char s)"

subsection \<open>Reading a JSON text back\<close>

text \<open>
  The notions below serve the proof that two structures with the same text are the same
  structure. The text of a structure:
\<close>

fun render :: "jtree \<Rightarrow> string" where
  "render TNull = ''null''"
| "render (TBool b) = (if b then ''true'' else ''false'')"
| "render (TNum s) = s"
| "render (TStr s) = json_quote s"
| "render (TArr ts) = ''['' @ join_comma (map render ts) @ '']''"
| "render (TObj ps) = ''{'' @ join_comma (map (\<lambda>(k, t). json_quote k @ '':'' @ render t) ps) @ ''}''"

abbreviation prop_text :: "string \<times> jtree \<Rightarrow> string" where
  "prop_text \<equiv> (\<lambda>(k, t). json_quote k @ '':'' @ render t)"

fun numeric_tree :: "jtree \<Rightarrow> bool" where
  "numeric_tree (TNum s) = numeric_text s"
| "numeric_tree (TArr ts) = list_all numeric_tree ts"
| "numeric_tree (TObj ps) = list_all (\<lambda>p. numeric_tree (snd p)) ps"
| "numeric_tree _ = True"

text \<open>Reading one character of a quoted text, with its escape undone.\<close>

definition hexval :: "char \<Rightarrow> nat" where
  "hexval c = (if (of_char c :: nat) < 58 then of_char c - 48 else of_char c - 87)"

fun read_char :: "string \<Rightarrow> (char \<times> string) option" where
  "read_char [] = None"
| "read_char (c # cs) =
     (if c = CHR 0x22 then None
      else if c = CHR 0x5C then
        (case cs of
           [] \<Rightarrow> None
         | x # ys \<Rightarrow>
             if x = CHR ''u'' then
               (case ys of
                  _ # _ # h1 # h2 # zs \<Rightarrow> Some (char_of (16 * hexval h1 + hexval h2), zs)
                | _ \<Rightarrow> None)
             else Some (if x = CHR ''b'' then CHR 0x08 else if x = CHR ''t'' then CHR 0x09
                        else if x = CHR ''n'' then CHR 0x0A else if x = CHR ''f'' then CHR 0x0C
                        else if x = CHR ''r'' then CHR 0x0D else x, ys))
      else Some (c, cs))"

text \<open>What can follow a complete item: nothing, a comma, or a closing bracket.\<close>

definition delimited :: "string \<Rightarrow> bool" where
  "delimited r = (case r of [] \<Rightarrow> True | c # cs \<Rightarrow> c = CHR '','' \<or> c = CHR '']'' \<or> c = CHR ''}'')"

text \<open>What follows the first item inside brackets that close with \<open>c\<close>.\<close>

definition after_item :: "string list \<Rightarrow> char \<Rightarrow> string \<Rightarrow> string" where
  "after_item xs c r = (if xs = [] then c # r else CHR '','' # join_comma xs @ c # r)"

text \<open>The first character of a text tells which kind of structure was written.\<close>

datatype lead = LNull | LTrue | LFalse | LNum | LStr | LArr | LObj | LOther

definition lead_of :: "string \<Rightarrow> lead" where
  "lead_of s = (case s of [] \<Rightarrow> LOther | c # cs \<Rightarrow>
      if c = CHR ''n'' then LNull else if c = CHR ''t'' then LTrue else if c = CHR ''f'' then LFalse
      else if number_char c then LNum else if c = CHR 0x22 then LStr
      else if c = CHR ''['' then LArr else if c = CHR ''{'' then LObj else LOther)"

fun lead_tree :: "jtree \<Rightarrow> lead" where
  "lead_tree TNull = LNull"
| "lead_tree (TBool b) = (if b then LTrue else LFalse)"
| "lead_tree (TNum s) = LNum"
| "lead_tree (TStr s) = LStr"
| "lead_tree (TArr ts) = LArr"
| "lead_tree (TObj ps) = LObj"

subsection \<open>Hosts and callers to evaluate examples with\<close>

text \<open>
  A property read: the own properties of a plain object under a text key, \<open>undefined\<close>
  for everything else.
\<close>

definition own_property :: propget where
  "own_property a key =
     (case (a, key) of
        (JObj p ps, JStr k) \<Rightarrow> (case map_of ps k of Some v \<Rightarrow> Inr v | None \<Rightarrow> Inr JUndefined)
      | _ \<Rightarrow> Inr JUndefined)"

text \<open>A property read of accessors that throw.\<close>

definition getter_throws :: propget where
  "getter_throws a key = Inl (Thrown JNull)"

text \<open>Callers whose every function throws, returns \<open>true\<close>, or returns the number 1.\<close>

definition fn_throws :: fenv where
  "fn_throws f a = Inl (Thrown JNull)"

definition fn_true :: fenv where
  "fn_true f a = Inr (JBool True)"

definition fn_one :: fenv where
  "fn_one f a = Inr (JNum (Fin 1))"

text \<open>
  A host that converts no text or object to a number, prints every number as \<open>0\<close> and
  finds that no \<open>toJSON\<close> returns a value.
\<close>

definition no_conv :: numconv where
  "no_conv v = Inl TypeError"

definition fmt0 :: numfmt where
  "fmt0 q = ''0''"

definition no_hook :: jsonhook where
  "no_hook f v k = Inr None"

text \<open>A caller whose every function is \<open>a => a > 3\<close>.\<close>

definition fn_gt3 :: fenv where
  "fn_gt3 f a = gt no_conv (Fin 3) a"

section \<open>Properties\<close>

subsection \<open>Numbers and values\<close>

lemma num_lt_irrefl: "\<not> num_lt x x"
  by (cases x) simp_all

lemma num_lt_asym: "num_lt x y \<Longrightarrow> \<not> num_lt y x"
  by (cases x; cases y) simp_all

lemma num_le_cases: "num_le lo hi \<Longrightarrow> num_lt lo hi \<or> lo = hi"
  by (cases lo; cases hi) (simp_all add: num_le_def)

lemma num_le_not_NaN: "num_le lo hi \<Longrightarrow> lo \<noteq> NaN \<and> hi \<noteq> NaN"
  by (cases lo; cases hi) (simp_all add: num_le_def)

lemma val_nonfunction: "typeof v \<noteq> ''function'' \<Longrightarrow> val env v = isVal v"
  by (simp add: val_def)

lemma val_function: "val env (JFun f) = env f"
  by (simp add: val_def apply_fn_def fun_eq_iff)

lemma typeof_function_iff: "(typeof v = ''function'') = (\<exists>f. v = JFun f)"
  by (cases v) simp_all

lemma strict_eq_scalar: "scalar v \<Longrightarrow> v \<noteq> JNum NaN \<Longrightarrow> strict_eq a v = (a = v)"
  apply (cases v; cases a; simp add: scalar_def strict_eq_def)
  subgoal for x y by (cases x; cases y) simp_all
  done

lemma strict_eq_NaN: "\<not> strict_eq a (JNum NaN)"
  apply (cases a; simp add: strict_eq_def)
  subgoal for x by (cases x) simp_all
  done

lemma scalar_not_function: "scalar v \<Longrightarrow> typeof v \<noteq> ''function''"
  by (cases v) (simp_all add: scalar_def)

lemma accepts_isVal: "accepts (isVal v) a = strict_eq a v"
  by (simp add: accepts_def truthy_result_def isVal_def)

subsection \<open>btw\<close>

lemma btw_swap: "btw conv a b n = btw conv b a n"
proof -
  consider (lt) "num_lt a b" | (gt) "num_lt b a" | (neither) "\<not> num_lt a b" "\<not> num_lt b a"
    by blast
  then show ?thesis
  proof cases
    case lt
    then have "\<not> num_lt b a" by (rule num_lt_asym)
    with lt show ?thesis by (simp add: btw_def)
  next
    case gt
    then have "\<not> num_lt a b" by (rule num_lt_asym)
    with gt show ?thesis by (simp add: btw_def)
  next
    case neither
    then have "a = b \<or> a = NaN \<or> b = NaN"
      by (cases a; cases b) auto
    then show ?thesis
      using neither
      by (cases "to_numeric conv n") (auto simp: btw_def js_gt_def js_lt_def elim!: num_lt.elims)
  qed
qed

lemma btw_true_iff:
  "(btw conv a b n = Inr (JBool True)) =
     (\<exists>x. to_numeric conv n = Inr x \<and>
          (if num_lt a b then num_lt a x \<and> num_lt x b else num_lt b x \<and> num_lt x a))"
  by (cases "to_numeric conv n") (auto simp: btw_def js_gt_def js_lt_def)

text \<open>
  C4. For all numbers \<open>a\<close>, \<open>b\<close> and every subject \<open>n\<close>, \<open>btw(a, b)(n)\<close> and \<open>btw(b, a)(n)\<close>
  give the same outcome; with \<open>lo\<close> the smaller and \<open>hi\<close> the larger of the two bounds,
  \<open>btw(a, b)(n)\<close> is true exactly when the number \<open>n\<close> is compared as lies strictly
  above \<open>lo\<close> and strictly below \<open>hi\<close>. (A NaN bound is neither smaller nor larger than
  anything: nothing is then accepted.)
\<close>

theorem btw_order_independent:
  "btw conv a b n = btw conv b a n \<and>
   (\<forall>lo hi. num_le lo hi \<and> ((lo = a \<and> hi = b) \<or> (lo = b \<and> hi = a)) \<longrightarrow>
      (btw conv a b n = Inr (JBool True)) =
      (\<exists>x. to_numeric conv n = Inr x \<and> num_lt lo x \<and> num_lt x hi)) \<and>
   (a = NaN \<or> b = NaN \<longrightarrow> btw conv a b n \<noteq> Inr (JBool True))"
proof (intro conjI allI impI)
  show "btw conv a b n = btw conv b a n" by (rule btw_swap)
next
  fix lo hi
  assume h: "num_le lo hi \<and> ((lo = a \<and> hi = b) \<or> (lo = b \<and> hi = a))"
  then have le: "num_le lo hi" by simp
  have ordered: "(btw conv lo hi n = Inr (JBool True)) =
      (\<exists>x. to_numeric conv n = Inr x \<and> num_lt lo x \<and> num_lt x hi)"
    using num_le_cases [OF le] by (auto simp: btw_true_iff num_lt_irrefl)
  from h have "btw conv a b n = btw conv lo hi n"
    using btw_swap [of conv a b n] by auto
  with ordered show "(btw conv a b n = Inr (JBool True)) =
      (\<exists>x. to_numeric conv n = Inr x \<and> num_lt lo x \<and> num_lt x hi)"
    by simp
next
  assume "a = NaN \<or> b = NaN"
  then show "btw conv a b n \<noteq> Inr (JBool True)"
    by (auto simp: btw_true_iff elim!: num_lt.elims)
qed

theorem btw_order_independent_witness:
  "btw no_conv (Fin 3) (Fin 9) (JNum (Fin 5)) = Inr (JBool True) \<and>
   btw no_conv (Fin 9) (Fin 3) (JNum (Fin 5)) = Inr (JBool True) \<and>
   num_le (Fin 3) (Fin 9) \<and>
   btw no_conv (Fin 9) (Fin 3) (JNum (Fin 3)) = Inr (JBool False) \<and>
   btw no_conv NaN (Fin 3) (JNum (Fin 1)) = Inr (JBool False)"
  using btw_order_independent [of no_conv "Fin 9" "Fin 3" "JNum (Fin 5)"]
        btw_order_independent [of no_conv "NaN" "Fin 3" "JNum (Fin 1)"]
  by (simp add: btw_def js_gt_def js_lt_def num_le_def no_conv_def)



subsection \<open>val\<close>

text \<open>
  C5. For every value \<open>v\<close> that is not a function, \<open>val(v)\<close> accepts a subject \<open>a\<close> exactly
  when \<open>a === v\<close>. For a scalar \<open>v\<close> (a number other than NaN, a boolean, \<open>null\<close>,
  \<open>undefined\<close>, a symbol) that is: exactly when \<open>a\<close> is \<open>v\<close> itself; NaN is equal to nothing.
  In particular the predicate of \<open>null\<close> is false on \<open>undefined\<close>, and the other way round.
\<close>

theorem val_strict_identity:
  "(typeof v \<noteq> ''function'' \<longrightarrow>
      val env v a = Inr (JBool (strict_eq a v)) \<and> accepts (val env v) a = strict_eq a v) \<and>
   (scalar v \<and> v \<noteq> JNum NaN \<longrightarrow> accepts (val env v) a = (a = v)) \<and>
   \<not> accepts (val env (JNum NaN)) a \<and>
   val env JNull JUndefined = Inr (JBool False) \<and>
   val env JUndefined JNull = Inr (JBool False)"
proof (intro conjI impI)
  assume "typeof v \<noteq> ''function''"
  then show "val env v a = Inr (JBool (strict_eq a v))"
    by (simp add: val_nonfunction isVal_def)
next
  assume "typeof v \<noteq> ''function''"
  then show "accepts (val env v) a = strict_eq a v"
    by (simp add: val_nonfunction accepts_isVal)
next
  assume h: "scalar v \<and> v \<noteq> JNum NaN"
  then have "val env v = isVal v"
    by (simp add: val_nonfunction scalar_not_function)
  with h show "accepts (val env v) a = (a = v)"
    by (simp add: accepts_isVal strict_eq_scalar)
next
  show "\<not> accepts (val env (JNum NaN)) a"
    by (simp add: val_nonfunction accepts_isVal strict_eq_NaN)
next
  show "val env JNull JUndefined = Inr (JBool False)"
    by (simp add: val_nonfunction isVal_def strict_eq_def)
next
  show "val env JUndefined JNull = Inr (JBool False)"
    by (simp add: val_nonfunction isVal_def strict_eq_def)
qed

theorem val_strict_identity_witness:
  "val fn_true (JNum (Fin 0)) (JNum (Fin 0)) = Inr (JBool True) \<and>
   val fn_true (JNum (Fin 0)) (JNum (Fin 1)) = Inr (JBool False) \<and>
   accepts (val fn_true (JBool False)) (JBool False) \<and>
   \<not> accepts (val fn_true JNull) (JBool True)"
  using val_strict_identity [of "JNum (Fin 0)" fn_true "JNum (Fin 0)"]
        val_strict_identity [of "JNum (Fin 0)" fn_true "JNum (Fin 1)"]
        val_strict_identity [of "JBool False" fn_true "JBool False"]
        val_strict_identity [of JNull fn_true "JBool True"]
  by (simp add: scalar_def strict_eq_def)

subsection \<open>not, and, or, entry\<close>

text \<open>
  C9. \<open>not\<close>, \<open>and\<close>, \<open>or\<close> and \<open>entry\<close> take an argument \<open>v\<close> that is not a function as
  the test \<open>a === v\<close>: \<open>not(v)(a)\<close> is \<open>!(a === v)\<close>, \<open>and(v, q)(a)\<close> is
  \<open>(a === v) && q(a)\<close>, and so on for the other argument and for \<open>or\<close>; \<open>entry(k, v)\<close>
  pairs \<open>k\<close> with that test.
\<close>

theorem combinators_coerce_values:
  "typeof v \<noteq> ''function'' \<Longrightarrow>
     notFn env v a = Inr (JBool (\<not> strict_eq a v)) \<and>
     andFn env v q a = (if strict_eq a v then val env q a else Inr (JBool False)) \<and>
     andFn env q v a =
       (case val env q a of Inl e \<Rightarrow> Inl e
        | Inr l \<Rightarrow> if truthy l then Inr (JBool (strict_eq a v)) else Inr l) \<and>
     orFn env v q a = (if strict_eq a v then Inr (JBool True) else val env q a) \<and>
     orFn env q v a =
       (case val env q a of Inl e \<Rightarrow> Inl e
        | Inr l \<Rightarrow> if truthy l then Inr l else Inr (JBool (strict_eq a v))) \<and>
     entry env k v = Entry k (\<lambda>a. Inr (JBool (strict_eq a v)))"
  by (auto simp: val_nonfunction isVal_def notFn_def andFn_def orFn_def entry_def fun_eq_iff
           split: sum.splits)

theorem combinators_coerce_values_witness:
  "andFn fn_true (JNum (Fin 5)) (JFun 0) (JNum (Fin 5)) = Inr (JBool True) \<and>
   andFn fn_true (JNum (Fin 5)) (JFun 0) (JNum (Fin 6)) = Inr (JBool False) \<and>
   orFn fn_true (JNum (Fin 5)) (JNum (Fin 6)) (JNum (Fin 6)) = Inr (JBool True) \<and>
   notFn fn_true (JNum (Fin 5)) (JNum (Fin 6)) = Inr (JBool True)"
  using combinators_coerce_values [of "JNum (Fin 5)" fn_true "JNum (Fin 5)" "JFun 0" JNull]
        combinators_coerce_values [of "JNum (Fin 5)" fn_true "JNum (Fin 6)" "JFun 0" JNull]
        combinators_coerce_values [of "JNum (Fin 5)" fn_true "JNum (Fin 6)" "JNum (Fin 6)" JNull]
  by (simp add: strict_eq_def val_function val_nonfunction isVal_def fn_true_def)

subsection \<open>prim\<close>

lemma isArray_iff: "isArray a = (\<exists>p xs. a = JArr p xs)"
  by (cases a) simp_all

lemma name_Array_iff: "(name d = ''Array'') = (d = Array)"
  by (cases d) simp_all

lemma prim_Array: "prim Array a = Inr (JBool (isArray a))"
  by (simp add: prim_def)

lemma prim_other: "d \<noteq> Array \<Longrightarrow> prim d a = Inr (JBool (typeof a = toLowerCase (name d)))"
  by (simp add: prim_def name_Array_iff)

lemma toLowerCase_names:
  "toLowerCase ''Boolean'' = ''boolean''" "toLowerCase ''Number'' = ''number''"
  "toLowerCase ''Symbol'' = ''symbol''" "toLowerCase ''BigInt'' = ''bigint''"
  "toLowerCase ''String'' = ''string''" "toLowerCase ''Function'' = ''function''"
  "toLowerCase ''Object'' = ''object''"
  by code_simp+

text \<open>
  C6. The predicate of the descriptor \<open>Array\<close> is \<open>Array.isArray\<close>: true on every array and
  false on everything else, objects and numbers included, although an array and an
  object have the same \<open>typeof\<close>. The predicate of every other descriptor compares
  \<open>typeof a\<close> with the descriptor's name in lower case; that of \<open>String\<close> is false on a
  number.
\<close>

theorem prim_array_dedicated_check:
  "(prim Array a = Inr (JBool True)) = (\<exists>p xs. a = JArr p xs) \<and>
   (prim Array a = Inr (JBool False)) = (\<forall>p xs. a \<noteq> JArr p xs) \<and>
   prim Array (JObj p ps) = Inr (JBool False) \<and>
   prim Array (JNum x) = Inr (JBool False) \<and>
   typeof (JArr p xs) = typeof (JObj p ps) \<and>
   (d \<noteq> Array \<longrightarrow> prim d a = Inr (JBool (typeof a = toLowerCase (name d)))) \<and>
   prim String (JNum x) = Inr (JBool False)"
proof (intro conjI impI)
  show "(prim Array a = Inr (JBool True)) = (\<exists>p xs. a = JArr p xs)"
    by (simp add: prim_Array isArray_iff)
  show "(prim Array a = Inr (JBool False)) = (\<forall>p xs. a \<noteq> JArr p xs)"
    by (simp add: prim_Array isArray_iff)
  show "prim Array (JObj p ps) = Inr (JBool False)"
    by (simp add: prim_Array)
  show "prim Array (JNum x) = Inr (JBool False)"
    by (simp add: prim_Array)
  show "typeof (JArr p xs) = typeof (JObj p ps)"
    by simp
  show "prim String (JNum x) = Inr (JBool False)"
    by (simp add: prim_other toLowerCase_names)
next
  assume "d \<noteq> Array"
  then show "prim d a = Inr (JBool (typeof a = toLowerCase (name d)))"
    by (rule prim_other)
qed

theorem prim_array_dedicated_check_witness:
  "Number \<noteq> Array \<and> prim Number (JNum (Fin 5)) = Inr (JBool True) \<and>
   Object \<noteq> Array \<and> prim Object (JArr 0 []) = Inr (JBool True) \<and>
   prim Array (JArr 0 [JNum (Fin 1), JNum (Fin 2)]) = Inr (JBool True)"
  using prim_array_dedicated_check [of "JNum (Fin 5)" 0 "[]" "Fin 5" "[]" Number]
        prim_array_dedicated_check [of "JArr 0 []" 0 "[]" "Fin 5" "[]" Object]
        prim_array_dedicated_check [of "JArr 0 [JNum (Fin 1), JNum (Fin 2)]" 0 "[]" "Fin 5" "[]" Array]
  by (simp add: toLowerCase_names)

subsection \<open>The grammar table\<close>

text \<open>
  The \<open>prec\<close> of the entry token \<open>:\<close> is the greatest of the operators: strictly above
  that of negation, conjunction, disjunction, between and each of the four comparisons.
  What a greater \<open>prec\<close> means for the grouping of \<open>{ key: a && b }\<close> is decided by the
  parser that reads the table, which is not part of this development.
\<close>

lemma grammar_prec_of_entry:
  "outranks ENTRY NOT \<and> outranks ENTRY AND \<and> outranks ENTRY OR \<and> outranks ENTRY BTW \<and>
   outranks ENTRY GT \<and> outranks ENTRY GTE \<and> outranks ENTRY LT \<and> outranks ENTRY LTE"
  by (simp add: outranks_def operator_def)

subsection \<open>deep\<close>

text \<open>A quoted text can be read back: the text and what follows it are determined.\<close>

lemma hexval_hexdigit: "a < 16 \<Longrightarrow> hexval (hexdigit a) = a"
  by (auto simp: hexval_def hexdigit_def)

lemma read_char_long:
  assumes "(of_char c :: nat) < 32"
  shows "char_of (16 * hexval (hexdigit (of_char c div 16)) + hexval (hexdigit (of_char c mod 16))) = c"
proof -
  have "(of_char c :: nat) div 16 < 16" "(of_char c :: nat) mod 16 < 16" using assms by auto
  then show ?thesis by (simp add: hexval_hexdigit)
qed

lemma read_char_escape: "read_char (json_escape c @ rest) = Some (c, rest)"
  by (simp add: json_escape_def read_char_long)

lemma escaped_text_unique:
  "concat (map json_escape k) @ CHR 0x22 # r = concat (map json_escape k') @ CHR 0x22 # s
   \<Longrightarrow> k = k' \<and> r = s"
proof (induction k arbitrary: k')
  case Nil
  show ?case
  proof (cases k')
    case Nil
    with Nil.prems show ?thesis by simp
  next
    case (Cons d ds)
    with Nil.prems have "read_char (CHR 0x22 # r) = read_char (json_escape d @ concat (map json_escape ds) @ CHR 0x22 # s)"
      by simp
    then show ?thesis by (simp add: read_char_escape)
  qed
next
  case (Cons c cs)
  show ?case
  proof (cases k')
    case Nil
    with Cons.prems have "read_char (json_escape c @ concat (map json_escape cs) @ CHR 0x22 # r) = read_char (CHR 0x22 # s)"
      by simp
    then show ?thesis by (simp add: read_char_escape)
  next
    case (Cons d ds)
    with Cons.prems have "read_char (json_escape c @ concat (map json_escape cs) @ CHR 0x22 # r)
        = read_char (json_escape d @ concat (map json_escape ds) @ CHR 0x22 # s)"
      by simp
    then have "c = d" and "concat (map json_escape cs) @ CHR 0x22 # r = concat (map json_escape ds) @ CHR 0x22 # s"
      by (simp_all add: read_char_escape)
    with Cons.IH [of ds] Cons show ?thesis by simp
  qed
qed

lemma json_quote_unique: "json_quote k @ r = json_quote k' @ s \<Longrightarrow> k = k' \<and> r = s"
  using escaped_text_unique [of k r k' s] by (simp add: json_quote_def)

text \<open>Without \<open>toJSON\<close>, the serializer writes the text of the structure.\<close>

lemma json_structure:
  "hookless v \<Longrightarrow>
     json fmt hook key v =
       (case structure_of fmt v of Inl e \<Rightarrow> Inl e | Inr t \<Rightarrow> Inr (map_option render t))"
  "\<forall>x\<in>set xs. hookless x \<Longrightarrow>
     json_elems fmt hook i xs =
       (case structure_elems fmt xs of Inl e \<Rightarrow> Inl e | Inr ts \<Rightarrow> Inr (map render ts))"
  "\<forall>x\<in>set ps. hookless (snd x) \<Longrightarrow>
     json_props fmt hook ps =
       (case structure_props fmt ps of
          Inl e \<Rightarrow> Inl e
        | Inr ts \<Rightarrow> Inr (map (\<lambda>(k, t). json_quote k @ '':'' @ render t) ts))"
proof (induction fmt hook key v and fmt hook i xs and fmt hook ps rule: json_json_elems_json_props.induct)
  case (10 fmt hook key p ps)
  then show ?case
    by (auto split: sum.splits option.splits jsval.splits)
qed (auto split: sum.splits option.splits jsnum.splits)

text \<open>Numbers, and the first character of a text.\<close>

lemma delimited_simps [simp]:
  "delimited []" "delimited (CHR '','' # r)" "delimited (CHR '']'' # r)" "delimited (CHR ''}'' # r)"
  by (simp_all add: delimited_def)

lemma delimited_not_number: "delimited r \<Longrightarrow> takeWhile number_char r = []"
  by (cases r) (auto simp: delimited_def number_char_def)

lemma numeric_text_unique:
  assumes "numeric_text p" "numeric_text q" "delimited r" "delimited s" "p @ r = q @ s"
  shows "p = q \<and> r = s"
proof -
  have "takeWhile number_char (p @ r) = p"
    using assms(1,3) by (simp add: numeric_text_def list_all_iff takeWhile_append2 delimited_not_number)
  moreover have "takeWhile number_char (q @ s) = q"
    using assms(2,4) by (simp add: numeric_text_def list_all_iff takeWhile_append2 delimited_not_number)
  ultimately have "p = q" using assms(5) by simp
  with assms(5) show ?thesis by simp
qed

lemma lead_of_render: "numeric_tree t \<Longrightarrow> lead_of (render t @ r) = lead_tree t"
  by (cases t) (auto simp: lead_of_def number_char_def numeric_text_def json_quote_def neq_Nil_conv)

lemma render_not_delimited: "numeric_tree t \<Longrightarrow> render t @ r = c # cs \<Longrightarrow> \<not> delimited (c # cs)"
  by (cases t)
     (auto simp: delimited_def number_char_def numeric_text_def json_quote_def neq_Nil_conv
           split: if_splits)

lemma join_comma_Cons:
  "join_comma (x # xs) = x @ (if xs = [] then [] else CHR '','' # join_comma xs)"
  by (cases xs) simp_all

lemma join_comma_after: "join_comma (x # xs) @ c # r = x @ after_item xs c r"
  by (simp add: join_comma_Cons after_item_def)

lemma after_item_delimited: "c = CHR '']'' \<or> c = CHR ''}'' \<Longrightarrow> delimited (after_item xs c r)"
  by (auto simp: after_item_def)

lemma items_unique:
  assumes step: "\<And>t u r s. t \<in> set ts \<Longrightarrow> numeric_tree u \<Longrightarrow> delimited r \<Longrightarrow> delimited s \<Longrightarrow>
                   render t @ r = render u @ s \<Longrightarrow> t = u \<and> r = s"
    and "list_all numeric_tree ts" "list_all numeric_tree us"
    and "join_comma (map render ts) @ CHR '']'' # r = join_comma (map render us) @ CHR '']'' # s"
  shows "ts = us \<and> r = s"
  using assms
proof (induction ts arbitrary: us)
  case Nil
  show ?case
  proof (cases us)
    case Nil
    with Nil.prems(4) show ?thesis by simp
  next
    case (Cons u us')
    with Nil.prems(4) have e: "render u @ after_item (map render us') (CHR '']'') s = CHR '']'' # r"
      by (simp add: join_comma_after)
    from Nil.prems(3) Cons have "numeric_tree u" by simp
    then have "\<not> delimited (CHR '']'' # r)" using e by (rule render_not_delimited)
    then show ?thesis by simp
  qed
next
  case (Cons t ts')
  show ?case
  proof (cases us)
    case Nil
    with Cons.prems(4) have e: "render t @ after_item (map render ts') (CHR '']'') r = CHR '']'' # s"
      by (simp add: join_comma_after)
    from Cons.prems(2) have "numeric_tree t" by simp
    then have "\<not> delimited (CHR '']'' # s)" using e by (rule render_not_delimited)
    then show ?thesis by simp
  next
    case us: (Cons u us')
    let ?R = "after_item (map render ts') (CHR '']'') r"
    let ?S = "after_item (map render us') (CHR '']'') s"
    have eq: "render t @ ?R = render u @ ?S"
      using Cons.prems(4) us by (simp add: join_comma_after)
    have nu: "numeric_tree u" using Cons.prems(3) us by simp
    have "t = u \<and> ?R = ?S"
    proof (rule Cons.prems(1))
      show "t \<in> set (t # ts')" by simp
      show "numeric_tree u" by (rule nu)
      show "delimited ?R" by (simp add: after_item_delimited)
      show "delimited ?S" by (simp add: after_item_delimited)
      show "render t @ ?R = render u @ ?S" by (rule eq)
    qed
    then have tu: "t = u" and RS: "?R = ?S" by simp_all
    have "ts' = us' \<and> r = s"
    proof (cases "ts' = []")
      case True
      with RS show ?thesis by (auto simp: after_item_def split: if_splits)
    next
      case False
      with RS have ne: "us' \<noteq> []" by (auto simp: after_item_def split: if_splits)
      from False ne RS have e: "join_comma (map render ts') @ CHR '']'' # r = join_comma (map render us') @ CHR '']'' # s"
        by (simp add: after_item_def)
      show ?thesis
      proof (rule Cons.IH)
        fix t u r s
        assume "t \<in> set ts'" "numeric_tree u" "delimited r" "delimited s" "render t @ r = render u @ s"
        then show "t = u \<and> r = s" by (intro Cons.prems(1)) simp_all
      next
        show "list_all numeric_tree ts'" using Cons.prems(2) by simp
        show "list_all numeric_tree us'" using Cons.prems(3) us by simp
        show "join_comma (map render ts') @ CHR '']'' # r = join_comma (map render us') @ CHR '']'' # s"
          by (rule e)
      qed
    qed
    with tu us show ?thesis by simp
  qed
qed

text \<open>The text of a structure determines the structure.\<close>

lemma props_unique:
  assumes step: "\<And>k t u r s. (k, t) \<in> set ps \<Longrightarrow> numeric_tree u \<Longrightarrow> delimited r \<Longrightarrow> delimited s \<Longrightarrow>
                   render t @ r = render u @ s \<Longrightarrow> t = u \<and> r = s"
    and "list_all (\<lambda>p. numeric_tree (snd p)) ps" "list_all (\<lambda>p. numeric_tree (snd p)) qs"
    and "join_comma (map prop_text ps) @ CHR ''}'' # r = join_comma (map prop_text qs) @ CHR ''}'' # s"
  shows "ps = qs \<and> r = s"
  using assms
proof (induction ps arbitrary: qs)
  case Nil
  show ?case
  proof (cases qs)
    case Nil
    with Nil.prems(4) show ?thesis by simp
  next
    case (Cons q qs')
    obtain k' u where q: "q = (k', u)" by (cases q)
    from Nil.prems(4) Cons q have False
      by (simp add: join_comma_after json_quote_def)
    then show ?thesis ..
  qed
next
  case (Cons p ps')
  obtain k t where p: "p = (k, t)" by (cases p)
  show ?case
  proof (cases qs)
    case Nil
    from Cons.prems(4) Nil p have False
      by (simp add: join_comma_after json_quote_def)
    then show ?thesis ..
  next
    case qs: (Cons q qs')
    obtain k' u where q: "q = (k', u)" by (cases q)
    let ?R = "after_item (map prop_text ps') (CHR ''}'') r"
    let ?S = "after_item (map prop_text qs') (CHR ''}'') s"
    have "json_quote k @ (CHR '':'' # render t @ ?R) = json_quote k' @ (CHR '':'' # render u @ ?S)"
      using Cons.prems(4) qs p q by (simp add: join_comma_after)
    then have both: "k = k' \<and> CHR '':'' # render t @ ?R = CHR '':'' # render u @ ?S"
      by (rule json_quote_unique)
    then have kk: "k = k'" and eq: "render t @ ?R = render u @ ?S" by simp_all
    have nu: "numeric_tree u" using Cons.prems(3) qs q by simp
    have "t = u \<and> ?R = ?S"
    proof (rule Cons.prems(1))
      show "(k, t) \<in> set (p # ps')" using p by simp
      show "numeric_tree u" by (rule nu)
      show "delimited ?R" by (simp add: after_item_delimited)
      show "delimited ?S" by (simp add: after_item_delimited)
      show "render t @ ?R = render u @ ?S" by (rule eq)
    qed
    then have tu: "t = u" and RS: "?R = ?S" by simp_all
    have "ps' = qs' \<and> r = s"
    proof (cases "ps' = []")
      case True
      with RS show ?thesis by (auto simp: after_item_def split: if_splits)
    next
      case False
      with RS have ne: "qs' \<noteq> []" by (auto simp: after_item_def split: if_splits)
      from False ne RS have e: "join_comma (map prop_text ps') @ CHR ''}'' # r = join_comma (map prop_text qs') @ CHR ''}'' # s"
        by (simp add: after_item_def)
      show ?thesis
      proof (rule Cons.IH)
        fix k t u r s
        assume "(k, t) \<in> set ps'" "numeric_tree u" "delimited r" "delimited s" "render t @ r = render u @ s"
        then show "t = u \<and> r = s" by (intro Cons.prems(1) [of k]) simp_all
      next
        show "list_all (\<lambda>p. numeric_tree (snd p)) ps'" using Cons.prems(2) by simp
        show "list_all (\<lambda>p. numeric_tree (snd p)) qs'" using Cons.prems(3) qs by simp
        show "join_comma (map prop_text ps') @ CHR ''}'' # r = join_comma (map prop_text qs') @ CHR ''}'' # s"
          by (rule e)
      qed
    qed
    with kk tu p q qs show ?thesis by simp
  qed
qed

lemma render_unique:
  "numeric_tree t \<Longrightarrow> numeric_tree u \<Longrightarrow> delimited r \<Longrightarrow> delimited s \<Longrightarrow>
   render t @ r = render u @ s \<Longrightarrow> t = u \<and> r = s"
proof (induction t arbitrary: u r s)
  case TNull
  from TNull.prems have "lead_tree u = LNull"
    using lead_of_render [of TNull r] lead_of_render [of u s] by simp
  then have "u = TNull" by (cases u) (simp_all split: if_splits)
  with TNull.prems show ?case by simp
next
  case (TBool b)
  from TBool.prems have "lead_tree u = lead_tree (TBool b)"
    using lead_of_render [of "TBool b" r] lead_of_render [of u s] by simp
  then have "u = TBool b" by (cases u) (auto split: if_splits)
  with TBool.prems show ?case by simp
next
  case (TNum p)
  from TNum.prems have "lead_tree u = LNum"
    using lead_of_render [of "TNum p" r] lead_of_render [of u s] by simp
  then obtain q where u: "u = TNum q" by (cases u) (simp_all split: if_splits)
  with TNum.prems have "p = q \<and> r = s"
    by (intro numeric_text_unique) simp_all
  with u show ?case by simp
next
  case (TStr k)
  from TStr.prems have "lead_tree u = LStr"
    using lead_of_render [of "TStr k" r] lead_of_render [of u s] by simp
  then obtain k' where u: "u = TStr k'" by (cases u) (simp_all split: if_splits)
  with TStr.prems have "k = k' \<and> r = s"
    by (intro json_quote_unique) simp
  with u show ?case by simp
next
  case (TArr ts)
  from TArr.prems have "lead_tree u = LArr"
    using lead_of_render [of "TArr ts" r] lead_of_render [of u s] by simp
  then obtain us where u: "u = TArr us" by (cases u) (simp_all split: if_splits)
  have "ts = us \<and> r = s"
  proof (rule items_unique)
    fix t u r s
    assume "t \<in> set ts" "numeric_tree u" "delimited r" "delimited s" "render t @ r = render u @ s"
    moreover from \<open>t \<in> set ts\<close> TArr.prems(1) have "numeric_tree t" by (simp add: list_all_iff)
    ultimately show "t = u \<and> r = s" by (intro TArr.IH)
  next
    show "list_all numeric_tree ts" using TArr.prems by simp
    show "list_all numeric_tree us" using TArr.prems u by simp
    show "join_comma (map render ts) @ CHR '']'' # r = join_comma (map render us) @ CHR '']'' # s"
      using TArr.prems u by simp
  qed
  with u show ?case by simp
next
  case (TObj ps)
  from TObj.prems have "lead_tree u = LObj"
    using lead_of_render [of "TObj ps" r] lead_of_render [of u s] by simp
  then obtain qs where u: "u = TObj qs" by (cases u) (simp_all split: if_splits)
  have "ps = qs \<and> r = s"
  proof (rule props_unique)
    fix k t u r s
    assume "(k, t) \<in> set ps" "numeric_tree u" "delimited r" "delimited s" "render t @ r = render u @ s"
    moreover from \<open>(k, t) \<in> set ps\<close> TObj.prems(1) have "numeric_tree t" by (auto simp: list_all_iff)
    ultimately show "t = u \<and> r = s" by (intro TObj.IH [of "(k, t)"]) simp_all
  next
    show "list_all (\<lambda>p. numeric_tree (snd p)) ps" using TObj.prems by simp
    show "list_all (\<lambda>p. numeric_tree (snd p)) qs" using TObj.prems u by simp
    show "join_comma (map prop_text ps) @ CHR ''}'' # r = join_comma (map prop_text qs) @ CHR ''}'' # s"
      using TObj.prems u by simp
  qed
  with u show ?case by simp
qed

lemma render_inj: "numeric_tree t \<Longrightarrow> numeric_tree u \<Longrightarrow> (render t = render u) = (t = u)"
  using render_unique [of t u "[]" "[]"] by auto

lemma structure_numeric:
  "\<forall>q. numeric_text (fmt q) \<Longrightarrow> structure_of fmt v = Inr (Some t) \<Longrightarrow> numeric_tree t"
  "\<forall>q. numeric_text (fmt q) \<Longrightarrow> structure_elems fmt xs = Inr ts \<Longrightarrow> list_all numeric_tree ts"
  "\<forall>q. numeric_text (fmt q) \<Longrightarrow> structure_props fmt ps = Inr qs \<Longrightarrow>
     list_all (\<lambda>p. numeric_tree (snd p)) qs"
proof (induction fmt v and fmt xs and fmt ps arbitrary: t and ts and qs
       rule: structure_of_structure_elems_structure_props.induct)
qed (auto split: sum.splits option.splits jsnum.splits)

lemma render_option_inj:
  assumes "\<forall>q. numeric_text (fmt q)"
    and "structure_of fmt v = Inr t" "structure_of fmt a = Inr u"
  shows "(map_option render t = map_option render u) = (t = u)"
proof (cases t)
  case None
  then show ?thesis by (cases u) auto
next
  case t: (Some t')
  show ?thesis
  proof (cases u)
    case None
    with t show ?thesis by simp
  next
    case (Some u')
    from assms t have "numeric_tree t'" by (auto intro: structure_numeric(1))
    moreover from assms Some have "numeric_tree u'" by (auto intro: structure_numeric(1))
    ultimately show ?thesis using t Some by (simp add: render_inj)
  qed
qed

lemma deep_on_structure:
  assumes "\<forall>q. numeric_text (fmt q)" and "hookless v" and "hookless a"
  shows "deep_on fmt hook v a =
           (case structure_of fmt v of
              Inl e \<Rightarrow> Inl e
            | Inr t \<Rightarrow> (case structure_of fmt a of
                          Inl e \<Rightarrow> Inl e
                        | Inr u \<Rightarrow> Inr (JBool (t = u))))"
proof (cases "structure_of fmt v")
  case (Inl e)
  with assms(2) show ?thesis
    by (simp add: deep_on_def deep_def JSON_stringify_def json_structure(1))
next
  case t: (Inr t)
  show ?thesis
  proof (cases "structure_of fmt a")
    case (Inl e)
    with t assms(2,3) show ?thesis
      by (simp add: deep_on_def deep_def JSON_stringify_def json_structure(1))
  next
    case (Inr u)
    with t assms(2,3) render_option_inj [OF assms(1) t Inr] show ?thesis
      by (simp add: deep_on_def deep_def JSON_stringify_def json_structure(1))
  qed
qed

text \<open>
  C7, with structural equality made precise. \<open>deep(v)\<close> serializes \<open>v\<close> and the subject with
  \<open>JSON.stringify\<close> and compares the two texts. For values without \<open>toJSON\<close>, that is:
  \<open>deep(v)(a)\<close> is true exactly when \<open>v\<close> and \<open>a\<close> have the same JSON structure, whatever their
  references; it throws when one of them holds a BigInt. The predicate of \<open>{}\<close> is true on
  a fresh \<open>{}\<close> and false on \<open>[]\<close>; that of \<open>[]\<close> is true on a fresh \<open>[]\<close> and false on \<open>{}\<close>;
  that of \<open>""\<close> is true on \<open>""\<close> and false on \<open>[]\<close>.
\<close>

theorem deep_compares_json_structure:
  "((\<forall>q. numeric_text (fmt q)) \<and> hookless v \<and> hookless a \<longrightarrow>
      deep_on fmt hook v a =
        (case structure_of fmt v of
           Inl e \<Rightarrow> Inl e
         | Inr t \<Rightarrow> (case structure_of fmt a of
                       Inl e \<Rightarrow> Inl e
                     | Inr u \<Rightarrow> Inr (JBool (t = u))))) \<and>
   deep_on fmt hook (JObj p []) (JObj q []) = Inr (JBool True) \<and>
   deep_on fmt hook (JObj p []) (JArr q []) = Inr (JBool False) \<and>
   deep_on fmt hook (JArr p []) (JArr q []) = Inr (JBool True) \<and>
   deep_on fmt hook (JArr p []) (JObj q []) = Inr (JBool False) \<and>
   deep_on fmt hook (JStr []) (JStr []) = Inr (JBool True) \<and>
   deep_on fmt hook (JStr []) (JArr q []) = Inr (JBool False)"
proof (intro conjI impI)
  assume "(\<forall>q. numeric_text (fmt q)) \<and> hookless v \<and> hookless a"
  then show "deep_on fmt hook v a =
        (case structure_of fmt v of
           Inl e \<Rightarrow> Inl e
         | Inr t \<Rightarrow> (case structure_of fmt a of
                       Inl e \<Rightarrow> Inl e
                     | Inr u \<Rightarrow> Inr (JBool (t = u))))"
    by (intro deep_on_structure) simp_all
qed (simp_all add: deep_on_def deep_def JSON_stringify_def json_quote_def)

theorem deep_compares_json_structure_witness:
  "deep_on fmt0 no_hook
     (JArr 0 [JStr ''a'', JNull, JNum (Fin 2), JObj 1 [(''k'', JBool True)]])
     (JArr 2 [JStr ''a'', JNull, JNum (Fin 2), JObj 3 [(''k'', JBool True)]]) = Inr (JBool True) \<and>
   deep_on fmt0 no_hook
     (JArr 0 [JStr ''a'', JNull, JNum (Fin 2), JObj 1 [(''k'', JBool True)]])
     (JArr 2 [JStr ''a'', JNull, JNum (Fin 2), JObj 3 [(''k'', JBool False)]]) = Inr (JBool False) \<and>
   deep_on fmt0 no_hook (JObj 0 [(''k'', JStr ''a'')]) (JObj 1 [(''j'', JStr ''a'')]) = Inr (JBool False)"
  using deep_compares_json_structure [of fmt0
          "JArr 0 [JStr ''a'', JNull, JNum (Fin 2), JObj 1 [(''k'', JBool True)]]"
          "JArr 2 [JStr ''a'', JNull, JNum (Fin 2), JObj 3 [(''k'', JBool True)]]" no_hook 0 0]
        deep_compares_json_structure [of fmt0
          "JArr 0 [JStr ''a'', JNull, JNum (Fin 2), JObj 1 [(''k'', JBool True)]]"
          "JArr 2 [JStr ''a'', JNull, JNum (Fin 2), JObj 3 [(''k'', JBool False)]]" no_hook 0 0]
        deep_compares_json_structure [of fmt0
          "JObj 0 [(''k'', JStr ''a'')]" "JObj 1 [(''j'', JStr ''a'')]" no_hook 0 0]
  by (simp add: fmt0_def numeric_text_def number_char_def)

text \<open>
  As C7 is written it fails: the JSON structure is not structural equality. Two objects
  with the same properties in another order are told apart; a list holding \<open>undefined\<close>
  is taken for one holding \<open>null\<close>; and a property that is \<open>undefined\<close> counts for nothing.
\<close>

theorem deep_compares_json_structure_counterexample:
  "deep_on fmt0 no_hook (JObj 0 [(''a'', JBool True), (''b'', JNull)])
     (JObj 1 [(''b'', JNull), (''a'', JBool True)]) = Inr (JBool False) \<and>
   deep_on fmt0 no_hook (JArr 0 [JUndefined]) (JArr 1 [JNull]) = Inr (JBool True) \<and>
   deep_on fmt0 no_hook (JObj 0 [(''a'', JUndefined)]) (JObj 1 []) = Inr (JBool True)"
  by (simp add: deep_on_def deep_def JSON_stringify_def json_quote_def json_escape_def)

subsection \<open>obj\<close>

lemma obj_reduce_falsy: "\<not> truthy acc \<Longrightarrow> obj_reduce get env a acc es = Inr acc"
  by (induction es) (simp_all add: obj_step_def split: prod.splits)

lemma obj_step_absent:
  "truthy acc \<Longrightarrow> \<not> truthy a \<Longrightarrow> obj_step get env a acc e = Inr (JBool False)"
  by (simp add: obj_step_def split: prod.splits)

lemma obj_step_present:
  "truthy acc \<Longrightarrow> truthy a \<Longrightarrow>
   obj_step get env a acc e =
     (case destructure env e of
        (key, predicate) \<Rightarrow> (case get a key of Inl err \<Rightarrow> Inl err | Inr v \<Rightarrow> predicate v))"
  by (simp add: obj_step_def split: prod.splits)

lemma obj_reduce_accepts:
  "truthy acc \<Longrightarrow>
   truthy_result (obj_reduce get env a acc es) =
     ((es = [] \<or> truthy a) \<and> (\<forall>e\<in>set es. entry_accepts get env a e))"
proof (induction es arbitrary: acc)
  case Nil
  then show ?case by (simp add: accepts_def truthy_result_def)
next
  case (Cons e es)
  show ?case
  proof (cases "truthy a")
    case False
    with Cons.prems have "obj_reduce get env a acc (e # es) = Inr (JBool False)"
      by (simp add: obj_step_absent obj_reduce_falsy)
    with False show ?thesis by (simp add: accepts_def truthy_result_def)
  next
    case True
    obtain key predicate where d: "destructure env e = (key, predicate)"
      by (cases "destructure env e")
    show ?thesis
    proof (cases "get a key")
      case (Inl err)
      with d True Cons.prems show ?thesis
        by (simp add: obj_step_present accepts_def truthy_result_def entry_accepts_def)
    next
      case (Inr v)
      show ?thesis
      proof (cases "predicate v")
        case (Inl err)
        with d True Cons.prems Inr show ?thesis
          by (simp add: obj_step_present accepts_def truthy_result_def entry_accepts_def)
      next
        case r: (Inr r)
        show ?thesis
        proof (cases "truthy r")
          case False
          with d True Cons.prems Inr r show ?thesis
            by (simp add: obj_step_present obj_reduce_falsy accepts_def truthy_result_def entry_accepts_def)
        next
          case tr: True
          have "truthy_result (obj_reduce get env a acc (e # es)) = truthy_result (obj_reduce get env a r es)"
            using d True Cons.prems Inr r by (simp add: obj_step_present accepts_def truthy_result_def)
          also have "\<dots> = ((es = [] \<or> truthy a) \<and> (\<forall>e\<in>set es. entry_accepts get env a e))"
            by (rule Cons.IH [OF tr])
          finally show ?thesis
            using d True Inr r tr by (simp add: accepts_def truthy_result_def entry_accepts_def)
        qed
      qed
    qed
  qed
qed

lemma obj_absent:
  "entries \<noteq> [] \<Longrightarrow> \<not> truthy a \<Longrightarrow> obj get env entries a = Inr (JBool False)"
  by (cases entries) (simp_all add: obj_def obj_step_absent obj_reduce_falsy)

text \<open>
  C2, for at least one entry. \<open>obj(...entries)\<close> accepts a subject exactly when the subject
  is truthy, so neither \<open>null\<close> nor \<open>undefined\<close>, and the predicate of every entry accepts
  the subject's value under the entry's key; it is false on \<open>null\<close> and on \<open>undefined\<close>. The
  entries are tried in order, and once the accumulated result is falsy no further
  predicate is called.
\<close>

theorem obj_shape:
  "entries \<noteq> [] \<Longrightarrow>
     accepts (obj get env entries) a =
       (truthy a \<and> (\<forall>e\<in>set entries. entry_accepts get env a e)) \<and>
     (accepts (obj get env entries) a \<longrightarrow> a \<noteq> JNull \<and> a \<noteq> JUndefined) \<and>
     obj get env entries JNull = Inr (JBool False) \<and>
     obj get env entries JUndefined = Inr (JBool False) \<and>
     (\<not> truthy acc \<longrightarrow> obj_reduce get env a acc es = Inr acc)"
proof (intro conjI impI)
  assume ne: "entries \<noteq> []"
  have "accepts (obj get env entries) a = truthy_result (obj_reduce get env a (JBool True) entries)"
    by (simp add: accepts_def truthy_result_def obj_def)
  also have "\<dots> = ((entries = [] \<or> truthy a) \<and> (\<forall>e\<in>set entries. entry_accepts get env a e))"
    by (rule obj_reduce_accepts) simp
  finally show iff: "accepts (obj get env entries) a =
       (truthy a \<and> (\<forall>e\<in>set entries. entry_accepts get env a e))"
    using ne by simp
  show "obj get env entries JNull = Inr (JBool False)"
    using ne by (simp add: obj_absent)
  show "obj get env entries JUndefined = Inr (JBool False)"
    using ne by (simp add: obj_absent)
  {
    assume "accepts (obj get env entries) a"
    with iff have t: "truthy a" by simp
    from t show "a \<noteq> JNull" by auto
    from t show "a \<noteq> JUndefined" by auto
  }
next
  assume "\<not> truthy acc"
  then show "obj_reduce get env a acc es = Inr acc" by (rule obj_reduce_falsy)
qed

theorem obj_shape_witness:
  "accepts (obj own_property fn_true [entry fn_true (JStr ''a'') (JNum (Fin 1))])
     (JObj 0 [(''a'', JNum (Fin 1))]) \<and>
   \<not> accepts (obj own_property fn_true [entry fn_true (JStr ''a'') (JNum (Fin 1))])
     (JObj 0 [(''a'', JNum (Fin 2))]) \<and>
   obj own_property fn_true [entry fn_true (JStr ''a'') (JNum (Fin 1))] JNull = Inr (JBool False)"
  using obj_shape [of "[entry fn_true (JStr ''a'') (JNum (Fin 1))]" own_property fn_true
          "JObj 0 [(''a'', JNum (Fin 1))]" JNull "[]"]
        obj_shape [of "[entry fn_true (JStr ''a'') (JNum (Fin 1))]" own_property fn_true
          "JObj 0 [(''a'', JNum (Fin 2))]" JNull "[]"]
  by (simp add: entry_accepts_def entry_def val_def isVal_def own_property_def strict_eq_def
        accepts_def truthy_result_def)

text \<open>
  As C2 is written it fails twice: without entries \<open>obj()\<close> is true on \<open>null\<close>; and a
  predicate that follows a rejecting entry is not called (here the second predicate
  throws whenever it is called, and the result is \<open>false\<close>).
\<close>

theorem obj_shape_counterexample:
  "obj own_property fn_throws [] JNull = Inr (JBool True) \<and>
   obj own_property fn_throws
     [entry fn_throws (JStr ''a'') (JNum (Fin 1)), entry fn_throws (JStr ''b'') (JFun 0)]
     (JObj 0 [(''a'', JNum (Fin 2)), (''b'', JNum (Fin 3))]) = Inr (JBool False) \<and>
   obj own_property fn_throws
     [entry fn_throws (JStr ''b'') (JFun 0)]
     (JObj 0 [(''a'', JNum (Fin 2)), (''b'', JNum (Fin 3))]) = Inl (Thrown JNull)"
  by (simp add: obj_def obj_step_def entry_def val_def isVal_def apply_fn_def own_property_def
        strict_eq_def fn_throws_def)

subsection \<open>holds\<close>

lemma elem_map_JBool: "j < length bs \<Longrightarrow> elem (map JBool bs) j = JBool (bs ! j)"
  by (simp add: elem_def)

lemma inner_loop_bools:
  assumes "length bs = length fns"
    and "\<forall>k<length fns. \<exists>b. (fns ! k) item = Inr (JBool b)"
  shows "inner_loop fns item j (map JBool bs) =
         Inr (map JBool (map (\<lambda>k. bs ! k \<or> (j \<le> k \<and> (fns ! k) item = Inr (JBool True)))
                              [0..<length bs]))"
  using assms
proof (induction "length fns - j" arbitrary: j bs)
  case 0
  then have "\<not> j < length fns" by simp
  moreover have "map (\<lambda>k. bs ! k \<or> (j \<le> k \<and> (fns ! k) item = Inr (JBool True))) [0..<length bs] = bs"
    using 0 by (intro nth_equalityI) auto
  ultimately show ?case by (simp add: inner_loop.simps)
next
  case (Suc m)
  then have j: "j < length fns" and jb: "j < length bs" by simp_all
  from Suc have m: "m = length fns - (j + 1)" by simp
  show ?case
  proof (cases "bs ! j")
    case True
    have eq: "map (\<lambda>k. bs ! k \<or> (j + 1 \<le> k \<and> (fns ! k) item = Inr (JBool True))) [0..<length bs]
            = map (\<lambda>k. bs ! k \<or> (j \<le> k \<and> (fns ! k) item = Inr (JBool True))) [0..<length bs]"
      using True by (intro nth_equalityI) (auto simp: le_eq_less_or_eq)
    have "inner_loop fns item j (map JBool bs) = inner_loop fns item (j + 1) (map JBool bs)"
      using j jb True by (subst inner_loop.simps) (simp add: elem_map_JBool)
    also have "\<dots> = Inr (map JBool (map (\<lambda>k. bs ! k \<or> (j + 1 \<le> k \<and> (fns ! k) item = Inr (JBool True))) [0..<length bs]))"
      using Suc.hyps(1) [OF m Suc.prems] .
    finally show ?thesis using eq by simp
  next
    case False
    from Suc.prems(2) j obtain b where b: "(fns ! j) item = Inr (JBool b)" by blast
    let ?bs = "bs[j := b]"
    have len: "length ?bs = length fns" using Suc.prems(1) by simp
    have eq: "map (\<lambda>k. ?bs ! k \<or> (j + 1 \<le> k \<and> (fns ! k) item = Inr (JBool True))) [0..<length ?bs]
            = map (\<lambda>k. bs ! k \<or> (j \<le> k \<and> (fns ! k) item = Inr (JBool True))) [0..<length bs]"
      using False b jb by (intro nth_equalityI) (auto simp: nth_list_update le_eq_less_or_eq)
    have "inner_loop fns item j (map JBool bs) = inner_loop fns item (j + 1) (map JBool ?bs)"
      using j jb False b by (subst inner_loop.simps) (simp add: elem_map_JBool map_update)
    also have "\<dots> = Inr (map JBool (map (\<lambda>k. ?bs ! k \<or> (j + 1 \<le> k \<and> (fns ! k) item = Inr (JBool True))) [0..<length ?bs]))"
      using Suc.hyps(1) [OF m len Suc.prems(2)] .
    finally show ?thesis using eq by simp
  qed
qed

lemma outer_loop_bools:
  assumes "length bs = length fns"
    and "\<forall>k<length fns. \<forall>x\<in>set n. \<exists>b. (fns ! k) x = Inr (JBool b)"
  shows "outer_loop fns n (map JBool bs) =
         Inr (map JBool (map (\<lambda>k. bs ! k \<or> (\<exists>x\<in>set n. (fns ! k) x = Inr (JBool True)))
                              [0..<length bs]))"
  using assms
proof (induction n arbitrary: bs)
  case Nil
  have "map (\<lambda>k. bs ! k) [0..<length bs] = bs" by (rule map_nth)
  then show ?case by simp
next
  case (Cons item items)
  let ?bs = "map (\<lambda>k. bs ! k \<or> (0 \<le> k \<and> (fns ! k) item = Inr (JBool True))) [0..<length bs]"
  have inner: "inner_loop fns item 0 (map JBool bs) = Inr (map JBool ?bs)"
    using Cons.prems by (intro inner_loop_bools) auto
  have len: "length ?bs = length fns" using Cons.prems(1) by simp
  have rest: "\<forall>k<length fns. \<forall>x\<in>set items. \<exists>b. (fns ! k) x = Inr (JBool b)"
    using Cons.prems(2) by auto
  have "outer_loop fns (item # items) (map JBool bs) = outer_loop fns items (map JBool ?bs)"
    using inner by simp
  also have "\<dots> = Inr (map JBool (map (\<lambda>k. ?bs ! k \<or> (\<exists>x\<in>set items. (fns ! k) x = Inr (JBool True)))
                              [0..<length ?bs]))"
    by (rule Cons.IH [OF len rest])
  also have "map (\<lambda>k. ?bs ! k \<or> (\<exists>x\<in>set items. (fns ! k) x = Inr (JBool True))) [0..<length ?bs]
           = map (\<lambda>k. bs ! k \<or> (\<exists>x\<in>set (item # items). (fns ! k) x = Inr (JBool True))) [0..<length bs]"
    by (intro nth_equalityI) auto
  finally show ?case .
qed

lemma foldl_js_and_bools: "foldl js_and (JBool b) (map JBool bs) = JBool (b \<and> (\<forall>c\<in>set bs. c))"
  by (induction bs arbitrary: b) (auto simp: js_and_def)

lemma reduce_and_bools: "bs \<noteq> [] \<Longrightarrow> reduce_and (map JBool bs) = Inr (JBool (\<forall>c\<in>set bs. c))"
  by (cases bs) (simp_all add: foldl_js_and_bools)

lemma val_boolean:
  assumes "\<forall>f. v = JFun f \<longrightarrow> (\<exists>b. env f x = Inr (JBool b))"
  shows "\<exists>b. val env v x = Inr (JBool b)"
proof (cases "typeof v = ''function''")
  case True
  then obtain f where "v = JFun f" by (auto simp: typeof_function_iff)
  with assms show ?thesis by (simp add: val_function)
next
  case False
  then show ?thesis by (simp add: val_nonfunction isVal_def)
qed

lemma holds_bools:
  assumes "args \<noteq> []"
    and "\<forall>f. JFun f \<in> set args \<longrightarrow> (\<forall>x\<in>set n. \<exists>b. env f x = Inr (JBool b))"
  shows "holds env args n =
         Inr (JBool (\<forall>arg\<in>set args. \<exists>x\<in>set n. val env arg x = Inr (JBool True)))"
proof -
  let ?fns = "map (val env) args"
  let ?bs = "replicate (length args) False"
  have success: "map (\<lambda>arg. JBool False) args = map JBool ?bs"
    by (simp add: map_replicate_const)
  have len: "length ?bs = length ?fns" by simp
  have total: "\<forall>k<length ?fns. \<forall>x\<in>set n. \<exists>b. (?fns ! k) x = Inr (JBool b)"
  proof (intro allI impI ballI)
    fix k x assume k: "k < length ?fns" and x: "x \<in> set n"
    then have "args ! k \<in> set args" by simp
    with assms(2) x have "\<forall>f. args ! k = JFun f \<longrightarrow> (\<exists>b. env f x = Inr (JBool b))" by auto
    then have "\<exists>b. val env (args ! k) x = Inr (JBool b)" by (rule val_boolean)
    with k show "\<exists>b. (?fns ! k) x = Inr (JBool b)" by simp
  qed
  let ?final = "map (\<lambda>k. ?bs ! k \<or> (\<exists>x\<in>set n. (?fns ! k) x = Inr (JBool True))) [0..<length ?bs]"
  have outer: "outer_loop ?fns n (map JBool ?bs) = Inr (map JBool ?final)"
    by (rule outer_loop_bools [OF len total])
  have ne: "?final \<noteq> []" using assms(1) by simp
  have all: "(\<forall>c\<in>set ?final. c) = (\<forall>arg\<in>set args. \<exists>x\<in>set n. val env arg x = Inr (JBool True))"
    by (auto simp: all_set_conv_all_nth)
  have "holds env args n = reduce_and (map JBool ?final)"
    using outer by (simp add: holds_def success del: replicate.simps)
  also have "\<dots> = Inr (JBool (\<forall>c\<in>set ?final. c))"
    by (rule reduce_and_bools [OF ne])
  finally show ?thesis using all by simp
qed

lemma holds_no_arguments: "holds env [] n = Inl TypeError"
  by (induction n) (simp_all add: holds_def inner_loop.simps)

text \<open>
  C3. For every non-empty list of arguments, values or predicates (functions that return
  a boolean on the elements of the subject), and every subject list,
  \<open>holds(...args)(n)\<close> returns the boolean that says whether every argument is satisfied by
  at least one element of \<open>n\<close>. Nothing relates the two lengths.
\<close>

theorem holds_exists_per_argument:
  assumes "args \<noteq> []"
    and "\<forall>f. JFun f \<in> set args \<longrightarrow> (\<forall>x\<in>set n. \<exists>b. env f x = Inr (JBool b))"
  shows "holds env args n =
         Inr (JBool (\<forall>arg\<in>set args. \<exists>x\<in>set n. val env arg x = Inr (JBool True)))"
  using assms by (rule holds_bools)

text \<open>
  The two examples of the docstring of \<open>holds\<close>, with a third. \<open>holds(a => a > 3, 2)\<close> is
  true on \<open>[2, 5]\<close>. On \<open>[1, 2, 3]\<close>, where the docstring expects \<open>true\<close>, it is false: no
  element is above 3. \<open>holds(1, 2)([1, 3])\<close> is false, as the docstring says.
\<close>

theorem holds_exists_per_argument_witness:
  "holds fn_gt3 [JFun 0, JNum (Fin 2)] [JNum (Fin 2), JNum (Fin 5)] = Inr (JBool True) \<and>
   holds fn_gt3 [JFun 0, JNum (Fin 2)] [JNum (Fin 1), JNum (Fin 2), JNum (Fin 3)] =
     Inr (JBool False) \<and>
   holds fn_gt3 [JNum (Fin 1), JNum (Fin 2)] [JNum (Fin 1), JNum (Fin 3)] = Inr (JBool False)"
  using holds_exists_per_argument [of "[JFun 0, JNum (Fin 2)]" "[JNum (Fin 2), JNum (Fin 5)]" fn_gt3]
        holds_exists_per_argument [of "[JFun 0, JNum (Fin 2)]"
          "[JNum (Fin 1), JNum (Fin 2), JNum (Fin 3)]" fn_gt3]
        holds_exists_per_argument [of "[JNum (Fin 1), JNum (Fin 2)]"
          "[JNum (Fin 1), JNum (Fin 3)]" fn_gt3]
  by (auto simp: val_def apply_fn_def isVal_def strict_eq_def fn_gt3_def gt_def js_gt_def)

lemma returns_boolean_iff: "returns_boolean r = (\<exists>b. r = Inr (JBool b))"
  by (auto simp: returns_boolean_def split: sum.splits jsval.splits)

lemma val_returns_boolean:
  "\<forall>f x. returns_boolean (env f x) \<Longrightarrow> returns_boolean (val env v a)"
  unfolding returns_boolean_iff by (intro val_boolean) simp

lemma obj_reduce_returns_boolean:
  assumes "\<forall>f x. returns_boolean (env f x)" and "\<forall>k. \<exists>u. get a k = Inr u"
  shows "returns_boolean (obj_reduce get env a (JBool c) (map (\<lambda>(k, p). entry env k p) kvs))"
proof (induction kvs arbitrary: c)
  case Nil
  show ?case by (simp add: returns_boolean_def)
next
  case (Cons kv kvs)
  obtain k p where kv: "kv = (k, p)" by (cases kv)
  from assms(2) obtain u where u: "get a k = Inr u" by blast
  from val_returns_boolean [OF assms(1)] obtain b where b: "val env p u = Inr (JBool b)"
    unfolding returns_boolean_iff by blast
  have "\<exists>c'. obj_step get env a (JBool c) (entry env k p) = Inr (JBool c')"
    using u b by (auto simp: obj_step_def entry_def)
  then obtain c' where "obj_step get env a (JBool c) (entry env k p) = Inr (JBool c')" ..
  with Cons.IH [of c'] kv show ?case by simp
qed

text \<open>
  C1, where the functions of the caller return booleans, whatever they are applied to.
  Invoking a predicate built by \<open>val\<close>, \<open>not\<close>, \<open>and\<close>, \<open>or\<close> or \<open>prim\<close> returns a boolean and
  does not throw, on every subject. So does \<open>holds\<close> of at least one argument on every
  list; \<open>obj\<close> of entries built by \<open>entry\<close>, on a subject whose properties can be read; a
  comparison, on a subject that has a numeric value; and \<open>deep\<close>, when the captured value
  and the subject can both be serialized.
\<close>

theorem predicates_return_booleans:
  assumes "\<forall>f x. returns_boolean (env f x)"
  shows "returns_boolean (val env v a) \<and>
         returns_boolean (notFn env v a) \<and>
         returns_boolean (andFn env v w a) \<and>
         returns_boolean (orFn env v w a) \<and>
         returns_boolean (prim d a) \<and>
         (args \<noteq> [] \<longrightarrow> returns_boolean (holds env args n)) \<and>
         ((\<forall>k. \<exists>u. get a k = Inr u) \<longrightarrow>
            returns_boolean (obj get env (map (\<lambda>(k, p). entry env k p) kvs) a)) \<and>
         (to_numeric conv a = Inr x \<longrightarrow>
            returns_boolean (btw conv lo hi a) \<and> returns_boolean (btwe conv lo hi a) \<and>
            returns_boolean (lt conv lo a) \<and> returns_boolean (lte conv lo a) \<and>
            returns_boolean (gt conv lo a) \<and> returns_boolean (gte conv lo a)) \<and>
         (JSON_stringify fmt hook v = Inr s \<and> JSON_stringify fmt hook a = Inr t \<longrightarrow>
            returns_boolean (deep_on fmt hook v a))"
proof (intro conjI impI)
  from val_returns_boolean [OF assms] obtain b where b: "val env v a = Inr (JBool b)"
    unfolding returns_boolean_iff by blast
  from val_returns_boolean [OF assms] obtain c where c: "val env w a = Inr (JBool c)"
    unfolding returns_boolean_iff by blast
  show "returns_boolean (val env v a)"
    using b by (simp add: returns_boolean_def)
  show "returns_boolean (notFn env v a)"
    using b by (simp add: notFn_def returns_boolean_def)
  show "returns_boolean (andFn env v w a)"
    using b c by (simp add: andFn_def returns_boolean_def)
  show "returns_boolean (orFn env v w a)"
    using b c by (simp add: orFn_def returns_boolean_def)
  show "returns_boolean (prim d a)"
    by (simp add: prim_def returns_boolean_def)
next
  assume ne: "args \<noteq> []"
  have "\<forall>f. JFun f \<in> set args \<longrightarrow> (\<forall>x\<in>set n. \<exists>b. env f x = Inr (JBool b))"
    using assms by (simp add: returns_boolean_iff)
  from holds_bools [OF ne this] show "returns_boolean (holds env args n)"
    by (simp add: returns_boolean_def)
next
  assume "\<forall>k. \<exists>u. get a k = Inr u"
  with assms show "returns_boolean (obj get env (map (\<lambda>(k, p). entry env k p) kvs) a)"
    unfolding obj_def by (rule obj_reduce_returns_boolean)
next
  assume x: "to_numeric conv a = Inr x"
  show "returns_boolean (btw conv lo hi a)"
    using x by (simp add: btw_def js_gt_def js_lt_def returns_boolean_def)
  show "returns_boolean (btwe conv lo hi a)"
    using x by (simp add: btwe_def js_ge_def js_le_def returns_boolean_def)
  show "returns_boolean (lt conv lo a)"
    using x by (simp add: lt_def js_lt_def returns_boolean_def)
  show "returns_boolean (lte conv lo a)"
    using x by (simp add: lte_def js_le_def returns_boolean_def)
  show "returns_boolean (gt conv lo a)"
    using x by (simp add: gt_def js_gt_def returns_boolean_def)
  show "returns_boolean (gte conv lo a)"
    using x by (simp add: gte_def js_ge_def returns_boolean_def)
next
  assume "JSON_stringify fmt hook v = Inr s \<and> JSON_stringify fmt hook a = Inr t"
  then show "returns_boolean (deep_on fmt hook v a)"
    by (simp add: deep_on_def deep_def returns_boolean_def)
qed

theorem predicates_return_booleans_witness:
  "holds fn_true [JFun 0, JNum (Fin 2)] [JNum (Fin 1), JNum (Fin 3)] = Inr (JBool False) \<and>
   andFn fn_true (JFun 0) (JNum (Fin 2)) (JNum (Fin 2)) = Inr (JBool True) \<and>
   obj own_property fn_true [entry fn_true (JStr ''a'') (JFun 0)] (JNum (Fin 2)) = Inr (JBool True) \<and>
   gt no_conv (Fin 3) (JNum (Fin 2)) = Inr (JBool False) \<and>
   JSON_stringify fmt0 no_hook (JStr ''a'') = Inr (Some (json_quote ''a'')) \<and>
   JSON_stringify fmt0 no_hook (JNum (Fin 2)) = Inr (Some ''0'') \<and>
   returns_boolean (deep_on fmt0 no_hook (JStr ''a'') (JNum (Fin 2)))"
  using predicates_return_booleans [of fn_true "JFun 0" "JNum (Fin 2)" "JNum (Fin 2)" Array
          "[JFun 0, JNum (Fin 2)]" "[JNum (Fin 1), JNum (Fin 3)]" own_property
          "[(JStr ''a'', JFun 0)]" no_conv "Fin 2" "Fin 3" "Fin 3" fmt0 no_hook
          "Some (json_quote ''a'')" "Some ''0''"]
        predicates_return_booleans [of fn_true "JStr ''a''" "JNum (Fin 2)" "JNum (Fin 2)" Array
          "[JFun 0, JNum (Fin 2)]" "[JNum (Fin 1), JNum (Fin 3)]" own_property
          "[(JStr ''a'', JFun 0)]" no_conv "Fin 2" "Fin 3" "Fin 3" fmt0 no_hook
          "Some (json_quote ''a'')" "Some ''0''"]
  by (simp add: fn_true_def holds_def inner_loop.simps elem_def val_def apply_fn_def isVal_def
        strict_eq_def andFn_def js_and_def returns_boolean_def obj_def obj_step_def entry_def
        own_property_def gt_def js_gt_def JSON_stringify_def fmt0_def)

text \<open>
  As C1 is written it fails. \<open>holds()\<close> of no argument throws on every list, since
  \<open>reduce\<close> has no initial value. A function of the caller that throws, or returns
  something else than a boolean, passes through \<open>holds\<close>. A comparison with a symbol
  throws, \<open>deep\<close> throws on a BigInt, and \<open>obj\<close> throws when reading the property does.
\<close>

theorem predicates_return_booleans_counterexample:
  "holds fn_true [] [JNum (Fin 1)] = Inl TypeError \<and>
   holds fn_throws [JFun 0] [JNum (Fin 1)] = Inl (Thrown JNull) \<and>
   holds fn_one [JFun 0] [JNum (Fin 1)] = Inr (JNum (Fin 1)) \<and>
   btw no_conv (Fin 1) (Fin 3) (JSym 0) = Inl TypeError \<and>
   deep_on fmt0 no_hook (JStr []) (JBigInt 1) = Inl TypeError \<and>
   obj getter_throws fn_true [entry fn_true (JStr ''a'') (JNum (Fin 1))] (JObj 0 []) =
     Inl (Thrown JNull)"
  by (simp add: holds_def inner_loop.simps elem_def val_def apply_fn_def btw_def js_gt_def
        fn_throws_def fn_one_def deep_on_def deep_def JSON_stringify_def obj_def obj_step_def
        entry_def getter_throws_def)

end
